theory Spec2Isabelle
  imports Complex_Main
begin

section \<open>Legal-move indicator meshes (legalmoveshapes.js)\<close>

text \<open>
  The module builds flat vertex buffers for two board markers: a dot (a triangulated
  disc) and four small triangles in the corners of a tile. A buffer is a list of numbers,
  six per vertex (x, y, r, g, b, a), three vertices per triangle.
\<close>

section \<open>JavaScript numbers\<close>

text \<open>
  A JavaScript number is an IEEE-754 double: a finite value, one of the two infinities, or
  NaN. A finite value is kept as the real number it denotes. The two zeros are one value
  here, as they are for \<open>===\<close>; their sign could only be observed through a division by
  zero, and the module divides by the literal 2 only. \<open>Fin x\<close> is a value of the language
  when \<open>x\<close> is a double (\<open>exact x\<close> below); statements about every \<open>Fin x\<close> cover them.
\<close>

datatype jsnum = Fin real | PInf | NInf | NaN

subsection \<open>Rounding to the nearest double\<close>

text \<open>
  \<open>bitLength n\<close> is the number of binary digits of \<open>n\<close>, and \<open>expo x\<close> the binary exponent
  of a positive \<open>x\<close>: the \<open>e\<close> with \<open>2^e \<le> x < 2^(e+1)\<close> (\<open>expo_spec\<close> below).
\<close>

fun bitLength :: "nat \<Rightarrow> nat" where
  "bitLength n = (if n = 0 then 0 else Suc (bitLength (n div 2)))"

declare bitLength.simps [simp del]

definition expo :: "real \<Rightarrow> int" where
  "expo x = (if 1 \<le> x then int (bitLength (nat \<lfloor>x\<rfloor>)) - 1
             else - int (bitLength (nat (\<lceil>1 / x\<rceil> - 1))))"

text \<open>Rounding to the nearest integer, a tie going to the even one.\<close>

definition rne :: "real \<Rightarrow> int" where
  "rne x = (let f = \<lfloor>x\<rfloor>; d = x - of_int f
            in if d < 1 / 2 then f
               else if 1 / 2 < d then f + 1
               else if even f then f else f + 1)"

text \<open>
  A double has a significand of 53 binary digits, so the doubles around a magnitude \<open>m\<close>
  with exponent \<open>e\<close> are the multiples of \<open>2^(e - 52)\<close>; below \<open>2^(-1022)\<close> the spacing
  stays \<open>2^(-1074)\<close> (subnormal numbers). \<open>roundMag m\<close> is the multiple nearest to \<open>m\<close>,
  a tie going to the even significand. \<open>round64\<close> rounds a real number: the magnitude is
  rounded, and a result of \<open>2^1024\<close> or more is an infinity.
\<close>

definition ulp :: "real \<Rightarrow> real" where
  "ulp m = 2 powi (max (expo m) (- 1022) - 52)"

definition roundMag :: "real \<Rightarrow> real" where
  "roundMag m = of_int (rne (m / ulp m)) * ulp m"

definition round64 :: "real \<Rightarrow> jsnum" where
  "round64 x =
     (let y = roundMag \<bar>x\<bar>
      in if 2 ^ 1024 \<le> y then (if x < 0 then NInf else PInf)
         else Fin (if x < 0 then - y else y))"

text \<open>\<open>exact x\<close>: the real number \<open>x\<close> is a double, rounding leaves it as it is.\<close>

definition exact :: "real \<Rightarrow> bool" where
  "exact x \<longleftrightarrow> round64 x = Fin x"

subsection \<open>Arithmetic and comparison\<close>

text \<open>
  Each operation computes the exact result of its finite operands and rounds it once.
  \<open>num\<close> reads a numeric literal of the source: the double nearest to the decimal written.
\<close>

definition num :: "real \<Rightarrow> jsnum" where
  "num literal = round64 literal"

fun fneg :: "jsnum \<Rightarrow> jsnum" where
  "fneg (Fin x) = Fin (- x)"
| "fneg PInf = NInf"
| "fneg NInf = PInf"
| "fneg NaN = NaN"

fun fadd :: "jsnum \<Rightarrow> jsnum \<Rightarrow> jsnum" where
  "fadd (Fin x) (Fin y) = round64 (x + y)"
| "fadd NaN _ = NaN"
| "fadd _ NaN = NaN"
| "fadd PInf NInf = NaN"
| "fadd NInf PInf = NaN"
| "fadd PInf _ = PInf"
| "fadd _ PInf = PInf"
| "fadd NInf _ = NInf"
| "fadd _ NInf = NInf"

definition fsub :: "jsnum \<Rightarrow> jsnum \<Rightarrow> jsnum" where
  "fsub a b = fadd a (fneg b)"

definition signed :: "bool \<Rightarrow> jsnum" where
  "signed positive = (if positive then PInf else NInf)"

fun fmul :: "jsnum \<Rightarrow> jsnum \<Rightarrow> jsnum" where
  "fmul (Fin x) (Fin y) = round64 (x * y)"
| "fmul NaN _ = NaN"
| "fmul _ NaN = NaN"
| "fmul (Fin x) PInf = (if x = 0 then NaN else signed (0 < x))"
| "fmul (Fin x) NInf = (if x = 0 then NaN else signed (x < 0))"
| "fmul PInf (Fin y) = (if y = 0 then NaN else signed (0 < y))"
| "fmul NInf (Fin y) = (if y = 0 then NaN else signed (y < 0))"
| "fmul PInf PInf = PInf"
| "fmul NInf NInf = PInf"
| "fmul PInf NInf = NInf"
| "fmul NInf PInf = NInf"

text \<open>A zero divisor is read as the positive zero; the module divides by the literal 2 only.\<close>

fun fdiv :: "jsnum \<Rightarrow> jsnum \<Rightarrow> jsnum" where
  "fdiv (Fin x) (Fin y) =
     (if y = 0 then (if x = 0 then NaN else signed (0 < x)) else round64 (x / y))"
| "fdiv NaN _ = NaN"
| "fdiv _ NaN = NaN"
| "fdiv (Fin x) _ = Fin 0"
| "fdiv PInf (Fin y) = signed (0 \<le> y)"
| "fdiv NInf (Fin y) = signed (y < 0)"
| "fdiv PInf PInf = NaN"
| "fdiv PInf NInf = NaN"
| "fdiv NInf PInf = NaN"
| "fdiv NInf NInf = NaN"

fun Math_ceil :: "jsnum \<Rightarrow> jsnum" where
  "Math_ceil (Fin x) = Fin (of_int \<lceil>x\<rceil>)"
| "Math_ceil v = v"

text \<open>The comparisons \<open><\<close>, \<open>>\<close> and \<open><=\<close>; every comparison with NaN is false.\<close>

fun lt :: "jsnum \<Rightarrow> jsnum \<Rightarrow> bool" where
  "lt (Fin x) (Fin y) = (x < y)"
| "lt NaN _ = False"
| "lt _ NaN = False"
| "lt PInf _ = False"
| "lt _ PInf = True"
| "lt NInf (Fin y) = True"
| "lt _ NInf = False"

definition gt :: "jsnum \<Rightarrow> jsnum \<Rightarrow> bool" where
  "gt a b = lt b a"

fun le :: "jsnum \<Rightarrow> jsnum \<Rightarrow> bool" where
  "le (Fin x) (Fin y) = (x \<le> y)"
| "le NaN _ = False"
| "le _ NaN = False"
| "le _ PInf = True"
| "le PInf _ = False"
| "le NInf _ = True"
| "le (Fin x) NInf = False"

section \<open>The module\<close>

text \<open>
  The arrays \<open>coords\<close> and \<open>color\<close> are the pair and the 4-tuple their documentation
  gives.
\<close>

type_synonym color = "jsnum \<times> jsnum \<times> jsnum \<times> jsnum"

type_synonym vertexBuffer = "jsnum list"

subsection \<open>Collaborators\<close>

text \<open>
  \<open>board.gsquareCenter()\<close> is a call into the board module. It is a parameter of the
  generators: a reader over some board state \<open>'b\<close> that returns the value read and the
  state after the call. The generators thread the board state through their reads, in
  the order of the source.
\<close>

type_synonym 'b reader = "'b \<Rightarrow> jsnum \<times> 'b"

text \<open>
  \<open>shapes.getDataCircle(x, y, radius, resolution, r, g, b, a)\<close> is a parameter too.
\<close>

type_synonym circlePrimitive =
  "jsnum \<Rightarrow> jsnum \<Rightarrow> jsnum \<Rightarrow> jsnum \<Rightarrow> jsnum \<Rightarrow> jsnum \<Rightarrow> jsnum \<Rightarrow> jsnum \<Rightarrow> vertexBuffer"

subsection \<open>getDataLegalMoveDot\<close>

text \<open>Lines 17 to 22: the slice count of the dot.\<close>

definition dotResolution :: "jsnum \<Rightarrow> bool \<Rightarrow> jsnum" where
  "dotResolution scale perspectiveOn =
     (let resolutionMultiplier = num 28;
          resolutionCap = num 32;
          resolutionMin = num 5;
          resolution = (if perspectiveOn then resolutionCap
                        else Math_ceil (fmul resolutionMultiplier scale));
          resolution = (if gt resolution resolutionCap then resolutionCap else resolution);
          resolution = (if lt resolution resolutionMin then resolutionMin else resolution)
      in resolution)"

definition getDataLegalMoveDot ::
  "'b reader \<Rightarrow> circlePrimitive \<Rightarrow> jsnum \<times> jsnum \<Rightarrow> color \<Rightarrow> jsnum \<Rightarrow> bool \<Rightarrow> 'b
     \<Rightarrow> vertexBuffer \<times> 'b" where
  "getDataLegalMoveDot gsquareCenter getDataCircle coords color scale perspectiveOn bd =
     (let radius = num (16 / 100);
          resolution = dotResolution scale perspectiveOn;
          opacityOffset = num (2 / 10);
          (r, g, b, a) = color;
          a = fadd a opacityOffset;
          (o1, bd) = gsquareCenter bd;
          x = fsub (fadd (fst coords) (fsub (num 1) o1)) (num (5 / 10));
          (o2, bd) = gsquareCenter bd;
          y = fsub (fadd (snd coords) (fsub (num 1) o2)) (num (5 / 10))
      in (getDataCircle x y radius resolution r g b a, bd))"

subsection \<open>getDataCornerTriangles\<close>

text \<open>
  The inner helper \<open>addTriangle\<close> pushes three vertices onto the array \<open>vertices\<close> of the
  enclosing call and reads its colour; both are arguments here, and the extended array
  is returned.
\<close>

definition addTriangle ::
  "vertexBuffer \<Rightarrow> color \<Rightarrow> jsnum \<Rightarrow> jsnum \<Rightarrow> jsnum \<Rightarrow> jsnum \<Rightarrow> jsnum \<Rightarrow> jsnum
     \<Rightarrow> vertexBuffer" where
  "addTriangle vertices color x1 y1 x2 y2 x3 y3 =
     (case color of (r, g, b, a) \<Rightarrow>
        vertices @ [x1, y1, r, g, b, a,
                    x2, y2, r, g, b, a,
                    x3, y3, r, g, b, a])"

definition getDataCornerTriangles :: "jsnum \<Rightarrow> jsnum \<Rightarrow> jsnum \<Rightarrow> color \<Rightarrow> vertexBuffer" where
  "getDataCornerTriangles centerX centerY triSize color =
     (let vertices = [];
          halfSize = fdiv (num 1) (num 2);
          topLeft = (fsub centerX halfSize, fadd centerY halfSize);
          topRight = (fadd centerX halfSize, fadd centerY halfSize);
          bottomLeft = (fsub centerX halfSize, fsub centerY halfSize);
          bottomRight = (fadd centerX halfSize, fsub centerY halfSize);
          cornerOffset = fdiv triSize (num 2);
          vertices = addTriangle vertices color
             (fst topLeft) (snd topLeft)
             (fadd (fst topLeft) cornerOffset) (snd topLeft)
             (fst topLeft) (fsub (snd topLeft) cornerOffset);
          vertices = addTriangle vertices color
             (fst topRight) (snd topRight)
             (fsub (fst topRight) cornerOffset) (snd topRight)
             (fst topRight) (fsub (snd topRight) cornerOffset);
          vertices = addTriangle vertices color
             (fst bottomLeft) (snd bottomLeft)
             (fadd (fst bottomLeft) cornerOffset) (snd bottomLeft)
             (fst bottomLeft) (fadd (snd bottomLeft) cornerOffset);
          vertices = addTriangle vertices color
             (fst bottomRight) (snd bottomRight)
             (fsub (fst bottomRight) cornerOffset) (snd bottomRight)
             (fst bottomRight) (fadd (snd bottomRight) cornerOffset)
      in vertices)"

subsection \<open>getDataLegalMoveCornerTris\<close>

definition getDataLegalMoveCornerTris ::
  "'b reader \<Rightarrow> jsnum \<times> jsnum \<Rightarrow> color \<Rightarrow> 'b \<Rightarrow> vertexBuffer \<times> 'b" where
  "getDataLegalMoveCornerTris gsquareCenter coords color bd =
     (let triSize = num (50 / 100);
          opacityOffset = num (2 / 10);
          (r, g, b, a) = color;
          a = fadd a opacityOffset;
          (o1, bd) = gsquareCenter bd;
          x = fsub (fadd (fst coords) (fsub (num 1) o1)) (num (5 / 10));
          (o2, bd) = gsquareCenter bd;
          y = fsub (fadd (snd coords) (fsub (num 1) o2)) (num (5 / 10))
      in (getDataCornerTriangles x y triSize (r, g, b, a), bd))"

subsection \<open>The collaborators as the specification describes them\<close>

text \<open>
  Modelled from the spec: \<open>board.gsquareCenter\<close>, whose module \<open>board.js\<close> lies
  outside the verified sources. The specification describes \<open>getSquareCenterOffset\<close> as
  the current sub-tile alignment value of the board, read-only: the reader returns the
  stored value and leaves the board as it was.
\<close>

record board =
  squareCenter :: jsnum

definition board_gsquareCenter :: "board reader" where
  "board_gsquareCenter bd = (squareCenter bd, bd)"

text \<open>
  Modelled from the spec: \<open>shapes.getDataCircle\<close>, whose module \<open>shapes.js\<close> lies
  outside the verified sources. The specification describes the circle primitive as a
  disc triangulator that emits \<open>resolution\<close> triangles in a fan around the centre, each
  vertex carrying the colour it was given. \<open>sliceCount\<close> reads a slice count off a number.
\<close>

fun sliceCount :: "jsnum \<Rightarrow> nat" where
  "sliceCount (Fin x) = nat \<lfloor>x\<rfloor>"
| "sliceCount _ = 0"

definition shapes_getDataCircle :: circlePrimitive where
  "shapes_getDataCircle x y radius resolution r g b a =
     concat (map (\<lambda>i.
        [x, y, r, g, b, a,
         fadd x (fmul radius (round64 (cos (2 * pi * real i / real (sliceCount resolution))))),
         fadd y (fmul radius (round64 (sin (2 * pi * real i / real (sliceCount resolution))))),
         r, g, b, a,
         fadd x (fmul radius (round64 (cos (2 * pi * real (Suc i) / real (sliceCount resolution))))),
         fadd y (fmul radius (round64 (sin (2 * pi * real (Suc i) / real (sliceCount resolution))))),
         r, g, b, a])
        [0 ..< sliceCount resolution])"

subsection \<open>Counting the reads of the board\<close>

text \<open>
  A reader wrapped by \<open>counting\<close> behaves as before on the board and adds one to a
  counter at every call, so that the counter after a generator has run, minus the counter
  before, is the number of times the generator called \<open>board.gsquareCenter()\<close>.
\<close>

definition counting :: "'b reader \<Rightarrow> (nat \<times> 'b) reader" where
  "counting gsquareCenter =
     (\<lambda>(n, bd). case gsquareCenter bd of (v, bd') \<Rightarrow> (v, (Suc n, bd')))"

subsection \<open>Reading a vertex buffer\<close>

text \<open>
  A buffer is read back six numbers at a time into vertices, and three vertices at a time
  into triangles. \<open>signedArea2\<close> is twice the signed area of a triangle, computed exactly
  from the positions emitted: negative when its vertices run clockwise (y pointing up),
  positive when they run counter-clockwise. \<open>translateBuffer dx dy\<close> adds \<open>dx\<close> to the x
  and \<open>dy\<close> to the y of every vertex, by the addition of the language, and keeps its colour.
\<close>

record vertex =
  position :: "jsnum \<times> jsnum"
  rgba :: color

fun vertexList :: "vertexBuffer \<Rightarrow> vertex list" where
  "vertexList (x # y # r # g # b # a # rest) =
     \<lparr>position = (x, y), rgba = (r, g, b, a)\<rparr> # vertexList rest"
| "vertexList _ = []"

fun triangleList :: "vertex list \<Rightarrow> (vertex \<times> vertex \<times> vertex) list" where
  "triangleList (u # v # w # rest) = (u, v, w) # triangleList rest"
| "triangleList _ = []"

fun realOf :: "jsnum \<Rightarrow> real" where
  "realOf (Fin x) = x"
| "realOf _ = 0"

definition signedArea2 :: "vertex \<times> vertex \<times> vertex \<Rightarrow> real" where
  "signedArea2 t =
     (case t of (u, v, w) \<Rightarrow>
        (realOf (fst (position v)) - realOf (fst (position u)))
          * (realOf (snd (position w)) - realOf (snd (position u)))
        - (realOf (fst (position w)) - realOf (fst (position u)))
          * (realOf (snd (position v)) - realOf (snd (position u))))"

fun translateBuffer :: "jsnum \<Rightarrow> jsnum \<Rightarrow> vertexBuffer \<Rightarrow> vertexBuffer" where
  "translateBuffer dx dy (x # y # r # g # b # a # rest) =
     fadd x dx # fadd y dy # r # g # b # a # translateBuffer dx dy rest"
| "translateBuffer dx dy rest = rest"

subsection \<open>Where the arithmetic of a tile is exact\<close>

text \<open>
  \<open>centreOf c ofs\<close> is the expression of lines 30, 31, 113 and 114 for one axis.
  \<open>centreExact c w\<close> says that none of its three operations rounds at the coordinate \<open>c\<close>
  and the offset \<open>w\<close>; \<open>cornerExact c\<close> that the sums \<open>getDataCornerTriangles\<close> forms
  around the centre coordinate \<open>c\<close> do not round; \<open>tileExact c w\<close> both, for the centre that
  belongs to \<open>c\<close> and \<open>w\<close>.
\<close>

definition centreOf :: "jsnum \<Rightarrow> jsnum \<Rightarrow> jsnum" where
  "centreOf c ofs = fsub (fadd c (fsub (num 1) ofs)) (num (5 / 10))"

definition centreExact :: "real \<Rightarrow> real \<Rightarrow> bool" where
  "centreExact c w \<longleftrightarrow> exact (1 - w) \<and> exact (c + (1 - w)) \<and> exact (c + (1 - w) - 1 / 2)"

definition cornerExact :: "real \<Rightarrow> bool" where
  "cornerExact c \<longleftrightarrow>
     exact (c - 1 / 2) \<and> exact (c - 1 / 4) \<and> exact (c + 1 / 4) \<and> exact (c + 1 / 2)"

definition tileExact :: "real \<Rightarrow> real \<Rightarrow> bool" where
  "tileExact c w \<longleftrightarrow> centreExact c w \<and> cornerExact (c + (1 - w) - 1 / 2)"

section \<open>Properties of the rounding\<close>

subsection \<open>The binary exponent\<close>

lemma bitLength_upper: "n < 2 ^ bitLength n"
proof (induction n rule: bitLength.induct)
  case (1 n)
  show ?case
  proof (cases "n = 0")
    case True
    then show ?thesis by (simp add: bitLength.simps)
  next
    case False
    with "1" have "n div 2 < 2 ^ bitLength (n div 2)" by simp
    then have "n < 2 * 2 ^ bitLength (n div 2)" by linarith
    with False show ?thesis by (simp add: bitLength.simps [of n])
  qed
qed

lemma bitLength_lower: "0 < n \<Longrightarrow> 2 ^ (bitLength n - 1) \<le> n"
proof (induction n rule: bitLength.induct)
  case (1 n)
  then have n: "n \<noteq> 0" by simp
  show ?case
  proof (cases "n div 2 = 0")
    case True
    with n show ?thesis by (simp add: bitLength.simps [of n] bitLength.simps [of 0])
  next
    case False
    with "1.IH" n have ih: "2 ^ (bitLength (n div 2) - 1) \<le> n div 2" by simp
    from False have "bitLength (n div 2) = Suc (bitLength (n div 2) - 1)"
      by (simp add: bitLength.simps [of "n div 2"])
    then have "(2::nat) ^ bitLength (n div 2) = 2 * 2 ^ (bitLength (n div 2) - 1)"
      by (metis power_Suc)
    also have "\<dots> \<le> 2 * (n div 2)" using ih by simp
    also have "\<dots> \<le> n" by simp
    finally show ?thesis using n by (simp add: bitLength.simps [of n])
  qed
qed

lemma bitLength_pos: "0 < n \<Longrightarrow> 0 < bitLength n"
  by (simp add: bitLength.simps [of n])

lemma expo_spec:
  assumes "0 < x"
  shows "2 powi (expo x) \<le> x" and "x < 2 powi (expo x + 1)"
proof -
  show "2 powi (expo x) \<le> x"
  proof (cases "1 \<le> x")
    case True
    define n where "n = nat \<lfloor>x\<rfloor>"
    from True have n: "0 < n" by (simp add: n_def)
    have "real (2 ^ (bitLength n - 1)) \<le> real n"
      using bitLength_lower [OF n] of_nat_le_iff by blast
    also have "real n \<le> x" using True by (simp add: n_def)
    finally have "2 ^ (bitLength n - 1) \<le> x" by simp
    moreover have "expo x = int (bitLength n - 1)"
      using True bitLength_pos [OF n] by (simp add: expo_def n_def)
    ultimately show ?thesis by simp
  next
    case False
    define c where "c = \<lceil>1 / x\<rceil>"
    define n where "n = nat (c - 1)"
    from False assms have y: "1 < 1 / x" by simp
    then have c: "2 \<le> c" unfolding c_def by linarith
    then have n: "0 < n" by (simp add: n_def)
    have "int n < 2 ^ bitLength n"
      using bitLength_upper [of n] by (metis of_nat_less_iff of_nat_numeral of_nat_power)
    then have "c \<le> 2 ^ bitLength n" using c by (simp add: n_def)
    then have "real_of_int c \<le> 2 ^ bitLength n"
      by (metis of_int_le_iff of_int_numeral of_int_power)
    moreover have "1 / x \<le> real_of_int c" by (simp add: c_def)
    ultimately have "1 / x \<le> 2 ^ bitLength n" by linarith
    then have "1 / 2 ^ bitLength n \<le> x"
      using assms by (simp add: field_simps)
    moreover have "expo x = - int (bitLength n)"
      using False by (simp add: expo_def n_def c_def)
    ultimately show ?thesis by (simp add: power_int_minus_divide)
  qed
  show "x < 2 powi (expo x + 1)"
  proof (cases "1 \<le> x")
    case True
    define n where "n = nat \<lfloor>x\<rfloor>"
    from True have n: "0 < n" by (simp add: n_def)
    have "n + 1 \<le> 2 ^ bitLength n" using bitLength_upper [of n] by simp
    then have "real (n + 1) \<le> real (2 ^ bitLength n)" using of_nat_le_iff by blast
    moreover have "x < real (n + 1)" using True by (simp add: n_def) linarith
    ultimately have "x < 2 ^ bitLength n" by simp
    moreover have "expo x + 1 = int (bitLength n)"
      using True bitLength_pos [OF n] by (simp add: expo_def n_def)
    ultimately show ?thesis by simp
  next
    case False
    define c where "c = \<lceil>1 / x\<rceil>"
    define n where "n = nat (c - 1)"
    from False assms have y: "1 < 1 / x" by simp
    then have c: "2 \<le> c" unfolding c_def by linarith
    then have n: "0 < n" by (simp add: n_def)
    have "real (2 ^ (bitLength n - 1)) \<le> real n"
      using bitLength_lower [OF n] of_nat_le_iff by blast
    also have "real n = real_of_int (c - 1)" using c by (simp add: n_def)
    also have "\<dots> < 1 / x" unfolding c_def by linarith
    finally have "2 ^ (bitLength n - 1) < 1 / x" by simp
    then have "x < 1 / 2 ^ (bitLength n - 1)"
      using assms by (simp add: field_simps)
    moreover have "expo x + 1 = - int (bitLength n - 1)"
      using False bitLength_pos [OF n] by (simp add: expo_def n_def c_def)
    ultimately show ?thesis by (simp add: power_int_minus_divide)
  qed
qed

lemma pow2_less_cancel: "(2::real) powi a < 2 powi b \<Longrightarrow> a < b"
proof (rule ccontr)
  assume "2 powi a < (2::real) powi b" and "\<not> a < b"
  then have "(2::real) powi b \<le> 2 powi a"
    by (intro power_int_increasing) simp_all
  with \<open>2 powi a < (2::real) powi b\<close> show False by simp
qed

lemma expo_unique:
  assumes "2 powi e \<le> x" and "x < 2 powi (e + 1)"
  shows "expo x = e"
proof -
  have "(0::real) < 2 powi e" by simp
  with assms have x: "0 < x" by linarith
  note s = expo_spec [OF x]
  have "(2::real) powi e < 2 powi (expo x + 1)" using assms s by linarith
  then have a: "e < expo x + 1" by (rule pow2_less_cancel)
  have "(2::real) powi (expo x) < 2 powi (e + 1)" using assms s by linarith
  then have b: "expo x < e + 1" by (rule pow2_less_cancel)
  from a b show ?thesis by simp
qed

subsection \<open>Rounding is monotone\<close>

lemma rne_of_int: "rne (of_int n) = n"
  by (simp add: rne_def)

lemma rne_ge_floor: "\<lfloor>x\<rfloor> \<le> rne x"
  by (simp add: rne_def Let_def)

lemma rne_le_floor_Suc: "rne x \<le> \<lfloor>x\<rfloor> + 1"
  by (simp add: rne_def Let_def)

lemma rne_mono: "x \<le> y \<Longrightarrow> rne x \<le> rne y"
proof -
  assume xy: "x \<le> y"
  then have f: "\<lfloor>x\<rfloor> \<le> \<lfloor>y\<rfloor>" by (rule floor_mono)
  show ?thesis
  proof (cases "\<lfloor>x\<rfloor> = \<lfloor>y\<rfloor>")
    case True
    with xy show ?thesis by (auto simp: rne_def Let_def)
  next
    case False
    with f have "\<lfloor>x\<rfloor> + 1 \<le> \<lfloor>y\<rfloor>" by simp
    with rne_le_floor_Suc [of x] rne_ge_floor [of y] show ?thesis by linarith
  qed
qed

lemma rne_le_int: "x \<le> of_int n \<Longrightarrow> rne x \<le> n"
  using rne_mono [of x "of_int n"] by (simp add: rne_of_int)

lemma rne_ge_int: "of_int n \<le> x \<Longrightarrow> n \<le> rne x"
  using rne_mono [of "of_int n" x] by (simp add: rne_of_int)

lemma ulp_pos: "0 < ulp m"
  by (simp add: ulp_def)

lemma roundMag_nonneg: "0 \<le> m \<Longrightarrow> 0 \<le> roundMag m"
proof -
  assume "0 \<le> m"
  then have "of_int 0 \<le> m / ulp m" using ulp_pos [of m] by simp
  then have "0 \<le> rne (m / ulp m)" by (rule rne_ge_int)
  then show ?thesis using ulp_pos [of m] by (simp add: roundMag_def)
qed

lemma roundMag_zero: "roundMag 0 = 0"
  by (simp add: roundMag_def rne_def)

lemma expo_mono: "0 < x \<Longrightarrow> x \<le> y \<Longrightarrow> expo x \<le> expo y"
proof -
  assume x: "0 < x" and xy: "x \<le> y"
  then have y: "0 < y" by simp
  have "2 powi (expo x) < (2::real) powi (expo y + 1)"
    using expo_spec(1) [OF x] expo_spec(2) [OF y] xy by linarith
  then have "expo x < expo y + 1" by (rule pow2_less_cancel)
  then show ?thesis by simp
qed

lemma roundMag_upper:
  assumes "0 < x"
  shows "roundMag x \<le> 2 powi (max (expo x) (- 1022) + 1)"
proof -
  define E where "E = max (expo x) (- 1022)"
  have u: "ulp x = 2 powi (E - 52)" by (simp add: ulp_def E_def)
  have "x < 2 powi (expo x + 1)" by (rule expo_spec(2) [OF assms])
  also have "\<dots> \<le> 2 powi (E + 1)"
    by (intro power_int_increasing) (simp_all add: E_def)
  finally have "x < 2 powi (E + 1)" .
  then have "x / ulp x < 2 powi (E + 1) / 2 powi (E - 52)"
    by (simp add: u divide_strict_right_mono)
  also have "2 powi (E + 1) / 2 powi (E - 52) = (2::real) powi 53"
    by (simp add: power_int_diff [symmetric])
  finally have "x / ulp x \<le> of_int (2 ^ 53)" by simp
  then have "rne (x / ulp x) \<le> 2 ^ 53" by (rule rne_le_int)
  then have "real_of_int (rne (x / ulp x)) \<le> 2 ^ 53"
    by (metis of_int_le_iff of_int_numeral of_int_power)
  then have "roundMag x \<le> 2 ^ 53 * 2 powi (E - 52)"
    by (simp add: roundMag_def u)
  also have "\<dots> = 2 powi 53 * 2 powi (E - 52)" by simp
  also have "\<dots> = 2 powi (E + 1)"
    by (simp add: power_int_add [symmetric] add.commute del: power_int_numeral)
  finally show ?thesis by (simp add: E_def)
qed

lemma roundMag_lower:
  assumes "0 < y" and "- 1022 \<le> expo y"
  shows "2 powi (expo y) \<le> roundMag y"
proof -
  define E where "E = expo y"
  have u: "ulp y = 2 powi (E - 52)" using assms by (simp add: ulp_def E_def max_def)
  have "2 powi E \<le> y" unfolding E_def by (rule expo_spec(1) [OF assms(1)])
  then have "2 powi E / 2 powi (E - 52) \<le> y / ulp y"
    by (simp add: u divide_right_mono)
  moreover have "2 powi E / 2 powi (E - 52) = (2::real) powi 52"
    by (simp add: power_int_diff [symmetric])
  ultimately have "of_int (2 ^ 52) \<le> y / ulp y" by simp
  then have "2 ^ 52 \<le> rne (y / ulp y)" by (rule rne_ge_int)
  then have "2 ^ 52 \<le> real_of_int (rne (y / ulp y))"
    by (metis of_int_le_iff of_int_numeral of_int_power)
  then have "2 ^ 52 * 2 powi (E - 52) \<le> roundMag y"
    by (simp add: roundMag_def u)
  moreover have "2 ^ 52 * 2 powi (E - 52) = (2::real) powi 52 * 2 powi (E - 52)" by simp
  moreover have "\<dots> = 2 powi E"
    by (simp add: power_int_add [symmetric] del: power_int_numeral)
  ultimately show ?thesis by (simp add: E_def)
qed

lemma roundMag_mono:
  assumes "0 \<le> x" and "x \<le> y"
  shows "roundMag x \<le> roundMag y"
proof (cases "x = 0")
  case True
  with assms show ?thesis by (simp add: roundMag_zero roundMag_nonneg)
next
  case False
  with assms have x: "0 < x" and y: "0 < y" by simp_all
  have e: "expo x \<le> expo y" by (rule expo_mono [OF x assms(2)])
  show ?thesis
  proof (cases "max (expo x) (- 1022) = max (expo y) (- 1022)")
    case True
    then have u: "ulp x = ulp y" by (simp add: ulp_def)
    have "x / ulp y \<le> y / ulp y"
      using assms(2) ulp_pos [of y] by (simp add: divide_right_mono)
    then have "rne (x / ulp y) \<le> rne (y / ulp y)" by (rule rne_mono)
    then show ?thesis using ulp_pos [of y] by (simp add: roundMag_def u)
  next
    case False
    with e have lt: "max (expo x) (- 1022) < expo y" and ey: "- 1022 \<le> expo y"
      by (simp_all add: max_def split: if_splits)
    have "roundMag x \<le> 2 powi (max (expo x) (- 1022) + 1)" by (rule roundMag_upper [OF x])
    also have "\<dots> \<le> 2 powi (expo y)"
    proof (intro power_int_increasing)
      show "max (expo x) (- 1022) + 1 \<le> expo y" using lt by linarith
    qed simp
    also have "\<dots> \<le> roundMag y" by (rule roundMag_lower [OF y ey])
    finally show ?thesis .
  qed
qed

lemma round64_mono: "x \<le> y \<Longrightarrow> le (round64 x) (round64 y)"
proof -
  assume xy: "x \<le> y"
  consider "0 \<le> x" | "x < 0" "0 \<le> y" | "y < 0" by linarith
  then show ?thesis
  proof cases
    case 1
    with xy have "roundMag \<bar>x\<bar> \<le> roundMag \<bar>y\<bar>" by (intro roundMag_mono) simp_all
    with 1 xy show ?thesis by (simp add: round64_def Let_def)
  next
    case 2
    have "0 \<le> roundMag \<bar>x\<bar>" "0 \<le> roundMag \<bar>y\<bar>" by (simp_all add: roundMag_nonneg)
    with 2 show ?thesis by (simp add: round64_def Let_def)
  next
    case 3
    with xy have "roundMag \<bar>y\<bar> \<le> roundMag \<bar>x\<bar>" by (intro roundMag_mono) simp_all
    with 3 xy show ?thesis by (simp add: round64_def Let_def)
  qed
qed

subsection \<open>Which numbers are doubles, and rounding at a known exponent\<close>

text \<open>
  An integer of fewer than 54 binary digits times a power of two in the range of the
  format is a double. \<open>round64_at\<close> evaluates a rounding once the exponent is known.
\<close>

lemma exactI:
  assumes x: "\<bar>x\<bar> = of_int n * 2 powi q"
    and n: "0 \<le> n" "n < 2 ^ 53"
    and q: "- 1074 \<le> q" "q \<le> 971"
  shows "exact x"
proof (cases "n = 0")
  case True
  with x have "x = 0" by simp
  then show ?thesis by (simp add: exact_def round64_def roundMag_zero)
next
  case False
  define m where "m = \<bar>x\<bar>"
  define E where "E = max (expo m) (- 1022)"
  from False n have n1: "1 \<le> n" by simp
  then have rn: "1 \<le> real_of_int n" by simp
  have m: "m = of_int n * 2 powi q" using x by (simp add: m_def)
  have mpos: "0 < m" using rn by (simp add: m)
  have "real_of_int n < 2 ^ 53" using n(2)
    by (metis of_int_less_iff of_int_numeral of_int_power)
  then have "m < 2 ^ 53 * 2 powi q" by (simp add: m)
  also have "\<dots> = 2 powi 53 * 2 powi q" by simp
  also have "\<dots> = 2 powi (q + 53)"
    by (simp add: power_int_add [symmetric] add.commute del: power_int_numeral)
  finally have mless: "m < 2 powi (q + 53)" .
  have "2 powi (expo m) < (2::real) powi (q + 53)"
    using expo_spec(1) [OF mpos] mless by linarith
  then have "expo m < q + 53" by (rule pow2_less_cancel)
  with q have E: "E \<le> q + 52" by (simp add: E_def)
  define k where "k = nat (q + 52 - E)"
  have u: "ulp m = 2 powi (E - 52)" by (simp add: ulp_def E_def)
  have "2 powi q / 2 powi (E - 52) = (2::real) powi (q - (E - 52))"
    by (simp add: power_int_diff)
  also have "q - (E - 52) = int k" using E by (simp add: k_def)
  finally have pk: "2 powi q / 2 powi (E - 52) = (2::real) ^ k" by simp
  have "m / ulp m = of_int n * (2 powi q / 2 powi (E - 52))"
    unfolding u by (subst m) simp
  also have "\<dots> = of_int (n * 2 ^ k)" by (simp add: pk)
  finally have quot: "m / ulp m = of_int (n * 2 ^ k)" .
  then have "rne (m / ulp m) = n * 2 ^ k" by (simp only: rne_of_int)
  then have "roundMag m = of_int (n * 2 ^ k) * ulp m" by (simp add: roundMag_def)
  also have "\<dots> = (m / ulp m) * ulp m" by (simp only: quot)
  also have "\<dots> = m" using ulp_pos [of m] by simp
  finally have rm: "roundMag m = m" .
  have "(2::real) powi (q + 53) \<le> 2 powi 1024"
    using q by (intro power_int_increasing) simp_all
  with mless have "m < 2 ^ 1024" by simp
  with rm show ?thesis by (simp add: exact_def round64_def m_def [symmetric] Let_def) (simp add: m_def)
qed

lemma round64_at:
  assumes "2 powi e \<le> \<bar>x\<bar>" and "\<bar>x\<bar> < 2 powi (e + 1)" and "- 1022 \<le> e" and "e \<le> 1022"
  shows "round64 x =
           Fin ((if x < 0 then - 1 else 1)
                * (of_int (rne (\<bar>x\<bar> / 2 powi (e - 52))) * 2 powi (e - 52)))"
proof -
  define m where "m = \<bar>x\<bar>"
  have e: "expo m = e" unfolding m_def by (rule expo_unique [OF assms(1,2)])
  have "(0::real) < 2 powi e" by simp
  with assms(1) have pos: "0 < m" unfolding m_def by linarith
  have u: "ulp m = 2 powi (e - 52)" using assms(3) by (simp add: ulp_def e max_def)
  have "roundMag m \<le> 2 powi (max (expo m) (- 1022) + 1)"
    by (rule roundMag_upper [OF pos])
  also have "\<dots> = 2 powi (e + 1)" using assms(3) by (simp add: e max_def)
  also have "\<dots> \<le> 2 powi 1023"
    using assms(4) by (intro power_int_increasing) simp_all
  also have "\<dots> < (2::real) powi 1024"
    by (intro power_int_strict_increasing) simp_all
  finally have small: "\<not> 2 ^ 1024 \<le> roundMag m" by simp
  have rm: "roundMag m = of_int (rne (m / 2 powi (e - 52))) * 2 powi (e - 52)"
    by (simp add: roundMag_def u)
  have "round64 x = Fin (if x < 0 then - roundMag m else roundMag m)"
    unfolding round64_def Let_def m_def [symmetric] using small by simp
  then have "round64 x =
      Fin ((if x < 0 then - 1 else 1)
           * (of_int (rne (m / 2 powi (e - 52))) * 2 powi (e - 52)))"
    using rm by simp
  then show ?thesis by (simp only: m_def)
qed

subsection \<open>The literals of the module\<close>

lemma lit_28: "num 28 = Fin 28" and lit_32: "num 32 = Fin 32" and lit_5: "num 5 = Fin 5"
  and lit_1: "num 1 = Fin 1" and lit_2: "num 2 = Fin 2"
  using exactI [of 28 28 0] exactI [of 32 32 0] exactI [of 5 5 0] exactI [of 1 1 0]
    exactI [of 2 2 0]
  by (simp_all add: num_def exact_def)

lemma lit_half: "num (1 / 2) = Fin (1 / 2)"
  using exactI [of "1 / 2" 1 "- 1"] by (simp add: num_def exact_def)

lemma lit_0_2: "num (1 / 5) = Fin (3602879701896397 / 18014398509481984)"
  using round64_at [of "- 3" "1 / 5"] by (simp add: num_def rne_def)

lemma lit_0_16: "num (4 / 25) = Fin (5764607523034235 / 36028797018963968)"
  using round64_at [of "- 3" "4 / 25"] by (simp add: num_def rne_def)

lemma halfSize: "fdiv (num 1) (num 2) = Fin (1 / 2)"
  using exactI [of "1 / 2" 1 "- 1"] by (simp add: lit_1 lit_2 exact_def)

lemma cornerOffset: "fdiv (num (1 / 2)) (num 2) = Fin (1 / 4)"
  using exactI [of "1 / 4" 1 "- 2"] by (simp add: lit_half lit_2 exact_def)

section \<open>What the generators compute\<close>

text \<open>
  The generators unfolded once: the slice count by cases of the scale, what is handed to
  the circle primitive, what \<open>getDataCornerTriangles\<close> returns, and the board state
  after the two reads.
\<close>

lemma round64_not_NaN: "round64 x \<noteq> NaN"
  by (simp add: round64_def Let_def)

lemma round64_nonneg_cases:
  "0 \<le> x \<Longrightarrow> round64 x = PInf \<or> (\<exists>v. 0 \<le> v \<and> round64 x = Fin v)"
  using roundMag_nonneg [of "\<bar>x\<bar>"] by (simp add: round64_def Let_def)

lemma dotResolution_persp: "dotResolution scale True = Fin 32"
  by (simp add: dotResolution_def Let_def lit_32 lit_5 gt_def)

lemma dotResolution_Fin:
  "dotResolution (Fin s) False =
     (case round64 (28 * s) of
        Fin v \<Rightarrow> Fin (of_int (max 5 (min 32 \<lceil>v\<rceil>)))
      | PInf \<Rightarrow> Fin 32 | NInf \<Rightarrow> Fin 5 | NaN \<Rightarrow> NaN)"
proof (cases "round64 (28 * s)")
  case (Fin v)
  define c where "c = \<lceil>v\<rceil>"
  have "Math_ceil (fmul (Fin 28) (Fin s)) = Fin (of_int c)"
    using Fin by (simp add: c_def)
  then have "dotResolution (Fin s) False = Fin (of_int (max 5 (min 32 c)))"
    by (simp add: dotResolution_def lit_28 lit_32 lit_5 Let_def gt_def max_def min_def)
  then show ?thesis using Fin by (simp add: c_def)
qed (simp_all add: dotResolution_def lit_28 lit_32 lit_5 Let_def gt_def)

lemma dotResolution_inf:
  "dotResolution PInf False = Fin 32" "dotResolution NInf False = Fin 5"
  "dotResolution NaN False = NaN"
  by (simp_all add: dotResolution_def lit_28 lit_32 lit_5 Let_def gt_def signed_def)

lemma dotResolution_range:
  assumes "scale \<noteq> NaN \<or> perspectiveOn"
  shows "\<exists>k. 5 \<le> k \<and> k \<le> 32 \<and> dotResolution scale perspectiveOn = Fin (of_int k)"
proof (cases perspectiveOn)
  case True
  have "dotResolution scale True = Fin (of_int 32)" by (simp add: dotResolution_persp)
  with True show ?thesis by (intro exI [of _ 32]) simp
next
  case False
  with assms have nn: "scale \<noteq> NaN" by simp
  show ?thesis
  proof (cases scale)
    case (Fin s)
    show ?thesis
    proof (cases "round64 (28 * s)")
      case (Fin v)
      then have "dotResolution scale perspectiveOn = Fin (of_int (max 5 (min 32 \<lceil>v\<rceil>)))"
        using False \<open>scale = Fin s\<close> by (simp add: dotResolution_Fin)
      then show ?thesis by (intro exI [of _ "max 5 (min 32 \<lceil>v\<rceil>)"]) simp
    next
      case PInf
      then have "dotResolution scale perspectiveOn = Fin (of_int 32)"
        using False \<open>scale = Fin s\<close> by (simp add: dotResolution_Fin)
      then show ?thesis by (intro exI [of _ 32]) simp
    next
      case NInf
      then have "dotResolution scale perspectiveOn = Fin (of_int 5)"
        using False \<open>scale = Fin s\<close> by (simp add: dotResolution_Fin)
      then show ?thesis by (intro exI [of _ 5]) simp
    next
      case NaN
      then show ?thesis by (simp add: round64_not_NaN)
    qed
  next
    case PInf
    then have "dotResolution scale perspectiveOn = Fin (of_int 32)"
      using False by (simp add: dotResolution_inf)
    then show ?thesis by (intro exI [of _ 32]) simp
  next
    case NInf
    then have "dotResolution scale perspectiveOn = Fin (of_int 5)"
      using False by (simp add: dotResolution_inf)
    then show ?thesis by (intro exI [of _ 5]) simp
  next
    case NaN
    with nn show ?thesis by simp
  qed
qed

lemma getDataCornerTriangles_buffer:
  "getDataCornerTriangles X Y (Fin (1 / 2)) (r, g, b, a) =
     [fsub X (Fin (1 / 2)), fadd Y (Fin (1 / 2)), r, g, b, a,
      fadd (fsub X (Fin (1 / 2))) (Fin (1 / 4)), fadd Y (Fin (1 / 2)), r, g, b, a,
      fsub X (Fin (1 / 2)), fsub (fadd Y (Fin (1 / 2))) (Fin (1 / 4)), r, g, b, a,
      fadd X (Fin (1 / 2)), fadd Y (Fin (1 / 2)), r, g, b, a,
      fsub (fadd X (Fin (1 / 2))) (Fin (1 / 4)), fadd Y (Fin (1 / 2)), r, g, b, a,
      fadd X (Fin (1 / 2)), fsub (fadd Y (Fin (1 / 2))) (Fin (1 / 4)), r, g, b, a,
      fsub X (Fin (1 / 2)), fsub Y (Fin (1 / 2)), r, g, b, a,
      fadd (fsub X (Fin (1 / 2))) (Fin (1 / 4)), fsub Y (Fin (1 / 2)), r, g, b, a,
      fsub X (Fin (1 / 2)), fadd (fsub Y (Fin (1 / 2))) (Fin (1 / 4)), r, g, b, a,
      fadd X (Fin (1 / 2)), fsub Y (Fin (1 / 2)), r, g, b, a,
      fsub (fadd X (Fin (1 / 2))) (Fin (1 / 4)), fsub Y (Fin (1 / 2)), r, g, b, a,
      fadd X (Fin (1 / 2)), fadd (fsub Y (Fin (1 / 2))) (Fin (1 / 4)), r, g, b, a]"
proof -
  have q: "fdiv (Fin (1 / 2)) (num 2) = Fin (1 / 4)"
    using cornerOffset by (simp add: lit_half)
  show ?thesis
    by (simp add: getDataCornerTriangles_def addTriangle_def Let_def halfSize q)
qed

lemma getDataLegalMoveCornerTris_call:
  "getDataLegalMoveCornerTris gsquareCenter (cx, cy) (r, g, b, a) bd =
     (getDataCornerTriangles
        (centreOf cx (fst (gsquareCenter bd)))
        (centreOf cy (fst (gsquareCenter (snd (gsquareCenter bd)))))
        (Fin (1 / 2)) (r, g, b, fadd a (num (2 / 10))),
      snd (gsquareCenter (snd (gsquareCenter bd))))"
  by (simp add: getDataLegalMoveCornerTris_def centreOf_def Let_def split_def lit_half)

lemma getDataLegalMoveDot_call:
  "getDataLegalMoveDot gsquareCenter getDataCircle (cx, cy) (r, g, b, a) scale perspectiveOn bd =
     (getDataCircle
        (centreOf cx (fst (gsquareCenter bd)))
        (centreOf cy (fst (gsquareCenter (snd (gsquareCenter bd)))))
        (num (16 / 100)) (dotResolution scale perspectiveOn) r g b (fadd a (num (2 / 10))),
      snd (gsquareCenter (snd (gsquareCenter bd))))"
  by (simp add: getDataLegalMoveDot_def centreOf_def Let_def split_def)

lemma shapes_getDataCircle_length:
  "length (shapes_getDataCircle x y radius resolution r g b a) = 18 * sliceCount resolution"
  by (simp add: shapes_getDataCircle_def length_concat comp_def sum_list_triv)

lemma vertexList_fan:
  "vertexList (concat (map (\<lambda>i. [x, y, r, g, b, a, p i, q i, r, g, b, a, p' i, q' i, r, g, b, a]) is))
     = concat (map (\<lambda>i. [\<lparr>position = (x, y), rgba = (r, g, b, a)\<rparr>,
                          \<lparr>position = (p i, q i), rgba = (r, g, b, a)\<rparr>,
                          \<lparr>position = (p' i, q' i), rgba = (r, g, b, a)\<rparr>]) is)"
  by (induction "is") simp_all

lemma shapes_getDataCircle_colour:
  "list_all (\<lambda>v. rgba v = (r, g, b, a))
     (vertexList (shapes_getDataCircle x y radius resolution r g b a))"
  unfolding shapes_getDataCircle_def vertexList_fan
  by (simp add: list_all_iff)

lemma round64_32: "round64 32 = Fin 32" and round64_5: "round64 5 = Fin 5"
  using lit_32 lit_5 by (simp_all add: num_def)

lemma dotResolution_cap:
  assumes "32 / 28 \<le> s"
  shows "dotResolution (Fin s) False = Fin 32"
proof -
  from assms have "32 \<le> 28 * s" by simp
  then have l: "le (Fin 32) (round64 (28 * s))"
    using round64_mono [of 32 "28 * s"] by (simp add: round64_32)
  show ?thesis
  proof (cases "round64 (28 * s)")
    case (Fin v)
    with l have "32 \<le> v" by simp
    then have "(32::int) \<le> \<lceil>v\<rceil>" by (simp add: le_ceiling_iff)
    with Fin show ?thesis by (simp add: dotResolution_Fin)
  next
    case PInf
    then show ?thesis by (simp add: dotResolution_Fin)
  next
    case NInf
    with l show ?thesis by simp
  next
    case NaN
    then show ?thesis by (simp add: round64_not_NaN)
  qed
qed

lemma dotResolution_floor:
  assumes "s \<le> 5 / 28"
  shows "dotResolution (Fin s) False = Fin 5"
proof -
  from assms have "28 * s \<le> 5" by simp
  then have l: "le (round64 (28 * s)) (Fin 5)"
    using round64_mono [of "28 * s" 5] by (simp add: round64_5)
  show ?thesis
  proof (cases "round64 (28 * s)")
    case (Fin v)
    with l have "v \<le> 5" by simp
    then have "\<lceil>v\<rceil> \<le> (5::int)" by (simp add: ceiling_le_iff)
    with Fin show ?thesis by (simp add: dotResolution_Fin)
  next
    case PInf
    with l show ?thesis by simp
  next
    case NInf
    then show ?thesis by (simp add: dotResolution_Fin)
  next
    case NaN
    then show ?thesis by (simp add: round64_not_NaN)
  qed
qed

lemma dotResolution_positive:
  assumes "0 < s"
  shows "dotResolution (Fin s) False =
           (case fmul (num 28) (Fin s) of
              Fin v \<Rightarrow> Fin (of_int (max 5 (min 32 \<lceil>v\<rceil>))) | _ \<Rightarrow> Fin 32)"
proof -
  from assms have "0 \<le> 28 * s" by simp
  from round64_nonneg_cases [OF this] show ?thesis
    by (auto simp add: dotResolution_Fin lit_28)
qed

lemma product_at_5_7: "round64 (28 * (6433713753386423 / 9007199254740992)) = Fin 20"
  using round64_at [of 4 "28 * (6433713753386423 / 9007199254740992)"]
  by (simp add: rne_def)

lemma le_clamped:
  "le (round64 x) (round64 y) \<Longrightarrow>
   le (case round64 x of Fin v \<Rightarrow> Fin (of_int (max 5 (min 32 \<lceil>v\<rceil>)))
        | PInf \<Rightarrow> Fin 32 | NInf \<Rightarrow> Fin 5 | NaN \<Rightarrow> NaN)
      (case round64 y of Fin v \<Rightarrow> Fin (of_int (max 5 (min 32 \<lceil>v\<rceil>)))
        | PInf \<Rightarrow> Fin 32 | NInf \<Rightarrow> Fin 5 | NaN \<Rightarrow> NaN)"
proof (cases "round64 x"; cases "round64 y")
  fix v w
  assume a: "le (round64 x) (round64 y)" and x: "round64 x = Fin v" and y: "round64 y = Fin w"
  then have "v \<le> w" by simp
  then have "\<lceil>v\<rceil> \<le> \<lceil>w\<rceil>" by (rule ceiling_mono)
  then have "max 5 (min 32 \<lceil>v\<rceil>) \<le> max 5 (min 32 \<lceil>w\<rceil>)" by simp
  then show ?thesis by (simp add: x y)
qed (simp_all add: round64_not_NaN)

subsection \<open>Tiles where nothing rounds\<close>

lemma fadd_exact: "exact z \<Longrightarrow> x + y = z \<Longrightarrow> fadd (Fin x) (Fin y) = Fin z"
  by (simp add: exact_def)

lemma fsub_exact: "exact z \<Longrightarrow> x - y = z \<Longrightarrow> fsub (Fin x) (Fin y) = Fin z"
  by (simp add: exact_def fsub_def)

lemma centreOf_exact:
  assumes "centreExact c w"
  shows "centreOf (Fin c) (Fin w) = Fin (c + (1 - w) - 1 / 2)"
proof -
  from assms have e: "exact (1 - w)" "exact (c + (1 - w))" "exact (c + (1 - w) - 1 / 2)"
    by (simp_all add: centreExact_def)
  have 1: "fsub (num 1) (Fin w) = Fin (1 - w)"
    unfolding lit_1 by (rule fsub_exact [OF e(1)]) simp
  have 2: "fadd (Fin c) (Fin (1 - w)) = Fin (c + (1 - w))"
    by (rule fadd_exact [OF e(2)]) simp
  have 3: "fsub (Fin (c + (1 - w))) (Fin (1 / 2)) = Fin (c + (1 - w) - 1 / 2)"
    by (rule fsub_exact [OF e(3)]) simp
  have h: "num (5 / 10) = Fin (1 / 2)" using lit_half by simp
  show ?thesis unfolding centreOf_def 1 2 h 3 ..
qed

lemma corner_ops:
  assumes "cornerExact c"
  shows "fsub (Fin c) (Fin (1 / 2)) = Fin (c - 1 / 2)"
    and "fadd (Fin c) (Fin (1 / 2)) = Fin (c + 1 / 2)"
    and "fadd (Fin (c - 1 / 2)) (Fin (1 / 4)) = Fin (c - 1 / 4)"
    and "fsub (Fin (c + 1 / 2)) (Fin (1 / 4)) = Fin (c + 1 / 4)"
proof -
  from assms have e: "exact (c - 1 / 2)" "exact (c - 1 / 4)" "exact (c + 1 / 4)" "exact (c + 1 / 2)"
    by (simp_all add: cornerExact_def)
  show "fsub (Fin c) (Fin (1 / 2)) = Fin (c - 1 / 2)" by (rule fsub_exact [OF e(1)]) simp
  show "fadd (Fin c) (Fin (1 / 2)) = Fin (c + 1 / 2)" by (rule fadd_exact [OF e(4)]) simp
  show "fadd (Fin (c - 1 / 2)) (Fin (1 / 4)) = Fin (c - 1 / 4)"
    by (rule fadd_exact [OF e(2)]) simp
  show "fsub (Fin (c + 1 / 2)) (Fin (1 / 4)) = Fin (c + 1 / 4)"
    by (rule fsub_exact [OF e(3)]) simp
qed

lemma getDataCornerTriangles_exact:
  assumes "cornerExact x" and "cornerExact y"
  shows "getDataCornerTriangles (Fin x) (Fin y) (Fin (1 / 2)) (r, g, b, a) =
     [Fin (x - 1 / 2), Fin (y + 1 / 2), r, g, b, a,
      Fin (x - 1 / 4), Fin (y + 1 / 2), r, g, b, a,
      Fin (x - 1 / 2), Fin (y + 1 / 4), r, g, b, a,
      Fin (x + 1 / 2), Fin (y + 1 / 2), r, g, b, a,
      Fin (x + 1 / 4), Fin (y + 1 / 2), r, g, b, a,
      Fin (x + 1 / 2), Fin (y + 1 / 4), r, g, b, a,
      Fin (x - 1 / 2), Fin (y - 1 / 2), r, g, b, a,
      Fin (x - 1 / 4), Fin (y - 1 / 2), r, g, b, a,
      Fin (x - 1 / 2), Fin (y - 1 / 4), r, g, b, a,
      Fin (x + 1 / 2), Fin (y - 1 / 2), r, g, b, a,
      Fin (x + 1 / 4), Fin (y - 1 / 2), r, g, b, a,
      Fin (x + 1 / 2), Fin (y - 1 / 4), r, g, b, a]"
  unfolding getDataCornerTriangles_buffer corner_ops [OF assms(1)] corner_ops [OF assms(2)] ..

lemma getDataCornerTriangles_length:
  "length (getDataCornerTriangles centerX centerY triSize color) = 72"
  by (cases color) (simp add: getDataCornerTriangles_def addTriangle_def Let_def)

lemma dotResolution_1: "dotResolution (Fin 1) False = Fin 28"
  using exactI [of 28 28 0] by (simp add: dotResolution_Fin exact_def)

text \<open>
  With the offset 0.5, the arithmetic of every integer tile coordinate of magnitude at most
  \<open>2^50\<close> is exact: all the sums are quarters of integers below \<open>2^53\<close>.
\<close>

lemma exact_quarters:
  assumes "\<bar>m\<bar> < 2 ^ 53"
  shows "exact (of_int m / 4)"
proof (rule exactI [of _ "\<bar>m\<bar>" "- 2"])
  show "\<bar>real_of_int m / 4\<bar> = real_of_int \<bar>m\<bar> * 2 powi (- 2)" by simp
qed (use assms in simp_all)

lemma tileExact_int:
  assumes "\<bar>k\<bar> \<le> 2 ^ 50"
  shows "tileExact (of_int k) (1 / 2)"
proof -
  have q: "exact (of_int k + of_int j / 4)" if "\<bar>j\<bar> \<le> 2" for j
  proof -
    have "\<bar>4 * k + j\<bar> < 2 ^ 53" using assms that by simp
    from exact_quarters [OF this] show ?thesis by (simp add: add_divide_distrib)
  qed
  have "exact (1 / 2)" by (rule exactI [of _ 1 "- 1"]) simp_all
  moreover have "exact (of_int k + 1 / 2)" using q [of 2] by simp
  moreover have "exact (of_int k - 1 / 2)" using q [of "- 2"] by simp
  moreover have "exact (of_int k + 1 / 4)" using q [of 1] by simp
  moreover have "exact (of_int k - 1 / 4)" using q [of "- 1"] by simp
  moreover have "exact (of_int k)" using q [of 0] by simp
  ultimately show ?thesis
    by (simp add: tileExact_def centreExact_def cornerExact_def)
qed

subsection \<open>Sample values\<close>

lemma lit_0_1: "num (1 / 10) = Fin (3602879701896397 / 36028797018963968)"
  using round64_at [of "- 4" "1 / 10"] by (simp add: num_def rne_def)

lemma lit_0_3: "num (3 / 10) = Fin (5404319552844595 / 18014398509481984)"
  using round64_at [of "- 2" "3 / 10"] by (simp add: num_def rne_def)

lemma sum_01_02:
  "fadd (Fin (3602879701896397 / 36028797018963968)) (num (1 / 5))
     = Fin (1351079888211149 / 4503599627370496)"
  using round64_at [of "- 2" "3602879701896397 / 36028797018963968
                               + 3602879701896397 / 18014398509481984"]
  by (simp add: lit_0_2 rne_def)

lemma sum_03_02: "fadd (Fin (5404319552844595 / 18014398509481984)) (num (1 / 5)) = Fin (1 / 2)"
  using exactI [of "1 / 2" 1 "- 1"] by (simp add: lit_0_2 exact_def)

lemma sum_05_02: "fadd (Fin (1 / 2)) (num (1 / 5)) = Fin (3152519739159347 / 4503599627370496)"
  using round64_at [of "- 1" "1 / 2 + 3602879701896397 / 18014398509481984"]
  by (simp add: lit_0_2 rne_def)

lemma sum_1_02: "fadd (Fin 1) (num (1 / 5)) = Fin (5404319552844595 / 4503599627370496)"
  using round64_at [of 0 "1 + 3602879701896397 / 18014398509481984"]
  by (simp add: lit_0_2 rne_def)

lemma corner_colours:
  "map rgba (vertexList (getDataCornerTriangles X Y t (r, g, b, a))) = replicate 12 (r, g, b, a)"
  by (simp add: getDataCornerTriangles_def addTriangle_def Let_def numeral_eq_Suc)

lemma exact_half: "exact (1 / 2)"
  by (rule exactI [of _ 1 "- 1"]) simp_all

lemma centreExact_5: "centreExact 5 (1 / 2)"
  unfolding centreExact_def
  using exactI [of "1 / 2" 1 "- 1"] exactI [of "11 / 2" 11 "- 1"] exactI [of 5 5 0]
  by simp

lemma centreExact_0: "centreExact 0 (1 / 2)"
  unfolding centreExact_def
  using exactI [of "1 / 2" 1 "- 1"] exactI [of 0 0 0]
  by simp

lemma round_big_1: "round64 (2 ^ 52 + 1 + 1 / 2) = Fin (2 ^ 52 + 2)"
  using round64_at [of 52 "2 ^ 52 + 1 + 1 / 2"] by (simp add: rne_def)

lemma round_big_2: "round64 (2 ^ 52 + 2 - 1 / 2) = Fin (2 ^ 52 + 2)"
  using round64_at [of 52 "2 ^ 52 + 2 - 1 / 2"] by (simp add: rne_def)

lemma round_big_3: "round64 (2 ^ 52 + 1 - 1 / 2) = Fin (2 ^ 52)"
  using round64_at [of 52 "2 ^ 52 + 1 - 1 / 2"] by (simp add: rne_def)

lemma centreOf_big: "centreOf (Fin (2 ^ 52 + 1)) (Fin (1 / 2)) = Fin (2 ^ 52 + 2)"
  using exact_half round_big_1 round_big_2
  by (simp add: centreOf_def fsub_def lit_1 lit_half exact_def)

lemma centreOf_zero: "centreOf (Fin 0) (Fin (1 / 2)) = Fin 0"
  using centreOf_exact [OF centreExact_0] by simp

lemma hd_corner: "hd (getDataCornerTriangles X Y (Fin (1 / 2)) (r, g, b, a)) = fsub X (Fin (1 / 2))"
  by (simp add: getDataCornerTriangles_buffer)

lemma positions_buffer:
  "map position (vertexList (getDataCornerTriangles X Y (Fin (1 / 2)) (r, g, b, a))) =
     [(fsub X (Fin (1 / 2)), fadd Y (Fin (1 / 2))),
      (fadd (fsub X (Fin (1 / 2))) (Fin (1 / 4)), fadd Y (Fin (1 / 2))),
      (fsub X (Fin (1 / 2)), fsub (fadd Y (Fin (1 / 2))) (Fin (1 / 4))),
      (fadd X (Fin (1 / 2)), fadd Y (Fin (1 / 2))),
      (fsub (fadd X (Fin (1 / 2))) (Fin (1 / 4)), fadd Y (Fin (1 / 2))),
      (fadd X (Fin (1 / 2)), fsub (fadd Y (Fin (1 / 2))) (Fin (1 / 4))),
      (fsub X (Fin (1 / 2)), fsub Y (Fin (1 / 2))),
      (fadd (fsub X (Fin (1 / 2))) (Fin (1 / 4)), fsub Y (Fin (1 / 2))),
      (fsub X (Fin (1 / 2)), fadd (fsub Y (Fin (1 / 2))) (Fin (1 / 4))),
      (fadd X (Fin (1 / 2)), fsub Y (Fin (1 / 2))),
      (fsub (fadd X (Fin (1 / 2))) (Fin (1 / 4)), fsub Y (Fin (1 / 2))),
      (fadd X (Fin (1 / 2)), fadd (fsub Y (Fin (1 / 2))) (Fin (1 / 4)))]"
  unfolding getDataCornerTriangles_buffer by simp

lemma positions_exact:
  assumes "cornerExact x" and "cornerExact y"
  shows "map position (vertexList (getDataCornerTriangles (Fin x) (Fin y) (Fin (1 / 2)) (r, g, b, a))) =
     [(Fin (x - 1 / 2), Fin (y + 1 / 2)), (Fin (x - 1 / 4), Fin (y + 1 / 2)),
        (Fin (x - 1 / 2), Fin (y + 1 / 4)),
      (Fin (x + 1 / 2), Fin (y + 1 / 2)), (Fin (x + 1 / 4), Fin (y + 1 / 2)),
        (Fin (x + 1 / 2), Fin (y + 1 / 4)),
      (Fin (x - 1 / 2), Fin (y - 1 / 2)), (Fin (x - 1 / 4), Fin (y - 1 / 2)),
        (Fin (x - 1 / 2), Fin (y - 1 / 4)),
      (Fin (x + 1 / 2), Fin (y - 1 / 2)), (Fin (x + 1 / 4), Fin (y - 1 / 2)),
        (Fin (x + 1 / 2), Fin (y - 1 / 4))]"
  unfolding getDataCornerTriangles_exact [OF assms] by simp

lemma cornerExact_5: "cornerExact 5"
  unfolding cornerExact_def
  using exactI [of "9 / 2" 9 "- 1"] exactI [of "19 / 4" 19 "- 2"] exactI [of "21 / 4" 21 "- 2"]
    exactI [of "11 / 2" 11 "- 1"]
  by simp

lemma cornerExact_0: "cornerExact 0"
  unfolding cornerExact_def
  using exactI [of "1 / 2" 1 "- 1"] exactI [of "1 / 4" 1 "- 2"]
    exactI [of "- (1 / 2)" 1 "- 1"] exactI [of "- (1 / 4)" 1 "- 2"]
  by simp

lemma centreOf_3e15: "centreOf (Fin 3000000000000000) (Fin (1 / 2)) = Fin 3000000000000000"
proof -
  have "centreExact 3000000000000000 (1 / 2)"
    unfolding centreExact_def
    using exactI [of "1 / 2" 1 "- 1"] exactI [of "6000000000000001 / 2" 6000000000000001 "- 1"]
      exactI [of 3000000000000000 3000000000000000 0]
    by simp
  from centreOf_exact [OF this] show ?thesis by simp
qed

lemma round_3e15: "round64 (3000000000000000 - 1 / 2 + 1 / 4) = Fin 3000000000000000"
  using round64_at [of 51 "3000000000000000 - 1 / 2 + 1 / 4"] by (simp add: rne_def)

lemma areas_exact:
  assumes "cornerExact x" and "cornerExact y"
  shows "map signedArea2
           (triangleList (vertexList (getDataCornerTriangles (Fin x) (Fin y) (Fin (1 / 2))
                                        (r, g, b, a))))
         = [- (1 / 16), 1 / 16, 1 / 16, - (1 / 16)]"
  unfolding getDataCornerTriangles_exact [OF assms]
  by (simp add: signedArea2_def)

lemma tileExact_0: "tileExact 0 (1 / 2)"
  using centreExact_0 cornerExact_0 by (simp add: tileExact_def)

lemma translate_exact:
  assumes "cornerExact (x0 + dx)" and "cornerExact (y0 + dy)"
  shows "translateBuffer (Fin dx) (Fin dy)
     [Fin (x0 - 1 / 2), Fin (y0 + 1 / 2), r, g, b, a,
      Fin (x0 - 1 / 4), Fin (y0 + 1 / 2), r, g, b, a,
      Fin (x0 - 1 / 2), Fin (y0 + 1 / 4), r, g, b, a,
      Fin (x0 + 1 / 2), Fin (y0 + 1 / 2), r, g, b, a,
      Fin (x0 + 1 / 4), Fin (y0 + 1 / 2), r, g, b, a,
      Fin (x0 + 1 / 2), Fin (y0 + 1 / 4), r, g, b, a,
      Fin (x0 - 1 / 2), Fin (y0 - 1 / 2), r, g, b, a,
      Fin (x0 - 1 / 4), Fin (y0 - 1 / 2), r, g, b, a,
      Fin (x0 - 1 / 2), Fin (y0 - 1 / 4), r, g, b, a,
      Fin (x0 + 1 / 2), Fin (y0 - 1 / 2), r, g, b, a,
      Fin (x0 + 1 / 4), Fin (y0 - 1 / 2), r, g, b, a,
      Fin (x0 + 1 / 2), Fin (y0 - 1 / 4), r, g, b, a]
   = [Fin (x0 + dx - 1 / 2), Fin (y0 + dy + 1 / 2), r, g, b, a,
      Fin (x0 + dx - 1 / 4), Fin (y0 + dy + 1 / 2), r, g, b, a,
      Fin (x0 + dx - 1 / 2), Fin (y0 + dy + 1 / 4), r, g, b, a,
      Fin (x0 + dx + 1 / 2), Fin (y0 + dy + 1 / 2), r, g, b, a,
      Fin (x0 + dx + 1 / 4), Fin (y0 + dy + 1 / 2), r, g, b, a,
      Fin (x0 + dx + 1 / 2), Fin (y0 + dy + 1 / 4), r, g, b, a,
      Fin (x0 + dx - 1 / 2), Fin (y0 + dy - 1 / 2), r, g, b, a,
      Fin (x0 + dx - 1 / 4), Fin (y0 + dy - 1 / 2), r, g, b, a,
      Fin (x0 + dx - 1 / 2), Fin (y0 + dy - 1 / 4), r, g, b, a,
      Fin (x0 + dx + 1 / 2), Fin (y0 + dy - 1 / 2), r, g, b, a,
      Fin (x0 + dx + 1 / 4), Fin (y0 + dy - 1 / 2), r, g, b, a,
      Fin (x0 + dx + 1 / 2), Fin (y0 + dy - 1 / 4), r, g, b, a]"
proof -
  have x: "fadd (Fin (x0 - 1 / 2)) (Fin dx) = Fin (x0 + dx - 1 / 2)"
    "fadd (Fin (x0 - 1 / 4)) (Fin dx) = Fin (x0 + dx - 1 / 4)"
    "fadd (Fin (x0 + 1 / 4)) (Fin dx) = Fin (x0 + dx + 1 / 4)"
    "fadd (Fin (x0 + 1 / 2)) (Fin dx) = Fin (x0 + dx + 1 / 2)"
    by (rule fadd_exact; use assms(1) in \<open>simp add: cornerExact_def\<close>)+
  have y: "fadd (Fin (y0 - 1 / 2)) (Fin dy) = Fin (y0 + dy - 1 / 2)"
    "fadd (Fin (y0 - 1 / 4)) (Fin dy) = Fin (y0 + dy - 1 / 4)"
    "fadd (Fin (y0 + 1 / 4)) (Fin dy) = Fin (y0 + dy + 1 / 4)"
    "fadd (Fin (y0 + 1 / 2)) (Fin dy) = Fin (y0 + dy + 1 / 2)"
    by (rule fadd_exact; use assms(2) in \<open>simp add: cornerExact_def\<close>)+
  show ?thesis unfolding translateBuffer.simps x y ..
qed

lemma translation_exact:
  "fst (gsquareCenter bd) = Fin w1 \<Longrightarrow>
   fst (gsquareCenter (snd (gsquareCenter bd))) = Fin w2 \<Longrightarrow>
   tileExact cx w1 \<Longrightarrow> tileExact 0 w1 \<Longrightarrow> tileExact cy w2 \<Longrightarrow> tileExact 0 w2 \<Longrightarrow>
   fst (getDataLegalMoveCornerTris gsquareCenter (Fin cx, Fin cy) color bd)
     = translateBuffer (Fin cx) (Fin cy)
         (fst (getDataLegalMoveCornerTris gsquareCenter (Fin 0, Fin 0) color bd))"
proof -
  assume rd: "fst (gsquareCenter bd) = Fin w1"
    "fst (gsquareCenter (snd (gsquareCenter bd))) = Fin w2"
    and ex: "tileExact cx w1" "tileExact cy w2" and ex0: "tileExact 0 w1" "tileExact 0 w2"
  obtain r g b a where color: "color = (r, g, b, a)" by (cases color) auto
  define X0 where "X0 = 0 + (1 - w1) - 1 / 2"
  define Y0 where "Y0 = 0 + (1 - w2) - 1 / 2"
  have sums: "cx + (1 - w1) - 1 / 2 = X0 + cx" "cy + (1 - w2) - 1 / 2 = Y0 + cy"
    by (simp_all add: X0_def Y0_def)
  from ex have c: "centreOf (Fin cx) (Fin w1) = Fin (X0 + cx)"
    "centreOf (Fin cy) (Fin w2) = Fin (Y0 + cy)"
    by (simp_all add: tileExact_def centreOf_exact sums)
  from ex0 have c0: "centreOf (Fin 0) (Fin w1) = Fin X0" "centreOf (Fin 0) (Fin w2) = Fin Y0"
    by (simp_all add: tileExact_def centreOf_exact X0_def Y0_def)
  from ex have k: "cornerExact (X0 + cx)" "cornerExact (Y0 + cy)"
    by (simp_all add: tileExact_def sums)
  from ex0 have k0: "cornerExact X0" "cornerExact Y0"
    by (simp_all add: tileExact_def X0_def Y0_def)
  show ?thesis
    unfolding color getDataLegalMoveCornerTris_call fst_conv rd c c0
      getDataCornerTriangles_exact [OF k] getDataCornerTriangles_exact [OF k0]
      translate_exact [OF k] ..
qed

lemma tileExact_3: "tileExact 3 (1 / 2)"
  unfolding tileExact_def centreExact_def cornerExact_def
  using exactI [of "1 / 2" 1 "- 1"] exactI [of "7 / 2" 7 "- 1"] exactI [of 3 3 0]
    exactI [of "5 / 2" 5 "- 1"] exactI [of "11 / 4" 11 "- 2"] exactI [of "13 / 4" 13 "- 2"]
  by simp

lemma tileExact_m2: "tileExact (- 2) (1 / 2)"
  unfolding tileExact_def centreExact_def cornerExact_def
  using exactI [of "1 / 2" 1 "- 1"] exactI [of "- (3 / 2)" 3 "- 1"] exactI [of "- 2" 2 0]
    exactI [of "- (5 / 2)" 5 "- 1"] exactI [of "- (9 / 4)" 9 "- 2"] exactI [of "- (7 / 4)" 7 "- 2"]
  by simp

lemma round_big_4: "round64 (- (1 / 2) + (2 ^ 52 + 1)) = Fin (2 ^ 52)"
  using round64_at [of 52 "- (1 / 2) + (2 ^ 52 + 1)"] by (simp add: rne_def)

lemma round64_14: "round64 14 = Fin 14" and round64_28: "round64 28 = Fin 28"
  using exactI [of 14 14 0] exactI [of 28 28 0] by (simp_all add: exact_def)

section \<open>The slice count of the dot\<close>

text \<open>
  C1 as stated takes the ceiling of the product 28 times scale. The module takes
  \<open>Math.ceil\<close> of the product rounded to a double, and the two differ: the double
  0.7142857142857143 lies just above 5/7, so that 28 times it lies just above 20 and its
  ceiling is 21, while the rounded product is 20 and the module chooses 20 slices.
\<close>

theorem real_ceiling_counterexample:
  "exact (6433713753386423 / 9007199254740992) \<and>
   (0::real) < 6433713753386423 / 9007199254740992 \<and>
   dotResolution (Fin (6433713753386423 / 9007199254740992)) False = Fin 20 \<and>
   max 5 (min 32 \<lceil>28 * (6433713753386423 / 9007199254740992 :: real)\<rceil>) = 21"
proof -
  have "exact (6433713753386423 / 9007199254740992)"
    by (rule exactI [of _ 6433713753386423 "- 53"]) simp_all
  moreover have "dotResolution (Fin (6433713753386423 / 9007199254740992)) False = Fin 20"
    using product_at_5_7 by (simp add: dotResolution_Fin)
  ultimately show ?thesis by simp
qed

text \<open>
  C1, amended. For every positive scale the slice count chosen by
  \<open>getDataLegalMoveDot\<close> (the resolution it hands to the circle primitive) is 32 when
  \<open>perspectiveOn\<close> is true, and otherwise the ceiling of the double product
  \<open>28 * scale\<close> (the exact product rounded to the nearest double), clamped to at most
  32 and at least 5; an infinite scale or product gives 32. In particular the count is 32
  for every scale of at least 32/28 and 5 for every scale of at most 5/28.
\<close>

theorem dot_resolution_clamped:
  "0 < s \<Longrightarrow>
     dotResolution (Fin s) True = Fin 32 \<and>
     dotResolution PInf True = Fin 32 \<and>
     dotResolution (Fin s) False =
       (case fmul (num 28) (Fin s) of
          Fin v \<Rightarrow> Fin (of_int (max 5 (min 32 \<lceil>v\<rceil>))) | _ \<Rightarrow> Fin 32) \<and>
     dotResolution PInf False = Fin 32 \<and>
     (32 / 28 \<le> s \<longrightarrow> dotResolution (Fin s) False = Fin 32) \<and>
     (s \<le> 5 / 28 \<longrightarrow> dotResolution (Fin s) False = Fin 5) \<and>
     (\<exists>x y radius r g b a.
        fst (getDataLegalMoveDot gsquareCenter getDataCircle coords color scale perspectiveOn bd)
          = getDataCircle x y radius (dotResolution scale perspectiveOn) r g b a)"
proof (intro conjI impI)
  obtain cx cy where coords: "coords = (cx, cy)" by (cases coords)
  obtain r g b a where color: "color = (r, g, b, a)" by (cases color) auto
  have "fst (getDataLegalMoveDot gsquareCenter getDataCircle coords color scale perspectiveOn bd)
          = getDataCircle (centreOf cx (fst (gsquareCenter bd)))
              (centreOf cy (fst (gsquareCenter (snd (gsquareCenter bd)))))
              (num (16 / 100)) (dotResolution scale perspectiveOn) r g b (fadd a (num (2 / 10)))"
    unfolding coords color getDataLegalMoveDot_call by simp
  then show "\<exists>x y radius r g b a.
        fst (getDataLegalMoveDot gsquareCenter getDataCircle coords color scale perspectiveOn bd)
          = getDataCircle x y radius (dotResolution scale perspectiveOn) r g b a"
    by blast
next
  show "dotResolution (Fin s) True = Fin 32" "dotResolution PInf True = Fin 32"
    by (simp_all add: dotResolution_persp)
  show "dotResolution PInf False = Fin 32" by (simp add: dotResolution_inf)
next
  assume "0 < s"
  then show "dotResolution (Fin s) False =
       (case fmul (num 28) (Fin s) of
          Fin v \<Rightarrow> Fin (of_int (max 5 (min 32 \<lceil>v\<rceil>))) | _ \<Rightarrow> Fin 32)"
    by (rule dotResolution_positive)
next
  assume "32 / 28 \<le> s"
  then show "dotResolution (Fin s) False = Fin 32" by (rule dotResolution_cap)
next
  assume "s \<le> 5 / 28"
  then show "dotResolution (Fin s) False = Fin 5" by (rule dotResolution_floor)
qed

theorem dot_resolution_clamped_witness:
  "dotResolution (Fin 2) True = Fin 32 \<and>
   dotResolution (Fin 2) False = Fin 32 \<and>
   dotResolution (Fin (1 / 10)) False = Fin 5 \<and>
   dotResolution (Fin (1 / 2)) False = Fin 14"
proof -
  note t = dot_resolution_clamped [where gsquareCenter = board_gsquareCenter
      and getDataCircle = shapes_getDataCircle and coords = "(Fin 0, Fin 0)"
      and color = "(Fin 1, Fin 0, Fin 0, Fin (1 / 2))" and scale = "Fin 1"
      and perspectiveOn = False and bd = "\<lparr>squareCenter = Fin (1 / 2)\<rparr>"]
  have p: "(0::real) < 2" "(0::real) < 1 / 10" "(0::real) < 1 / 2" by simp_all
  have m: "fmul (num 28) (Fin (1 / 2)) = Fin 14"
    using round64_14 by (simp add: lit_28)
  have q: "(32::real) / 28 \<le> 2" "(1::real) / 10 \<le> 5 / 28" by simp_all
  from t [OF p(1)] q(1) have a: "dotResolution (Fin 2) True = Fin 32"
    "dotResolution (Fin 2) False = Fin 32" by blast+
  from t [OF p(2)] q(2) have b: "dotResolution (Fin (1 / 10)) False = Fin 5" by blast
  from t [OF p(3)] have "dotResolution (Fin (1 / 2)) False =
       (case fmul (num 28) (Fin (1 / 2)) of
          Fin v \<Rightarrow> Fin (of_int (max 5 (min 32 \<lceil>v\<rceil>))) | _ \<Rightarrow> Fin 32)" by blast
  then have c: "dotResolution (Fin (1 / 2)) False = Fin 14" unfolding m by simp
  from a b c show ?thesis by simp
qed

text \<open>
  C8 as stated says that strictly between 5/28 and 32/28 the slice count is the ceiling of
  28 times scale. At the double 0.7142857142857143, which lies between the two bounds,
  that ceiling is 21 and the module chooses 20.
\<close>

theorem between_thresholds_counterexample:
  "exact (6433713753386423 / 9007199254740992) \<and>
   (5::real) / 28 < 6433713753386423 / 9007199254740992 \<and>
   (6433713753386423::real) / 9007199254740992 < 32 / 28 \<and>
   dotResolution (Fin (6433713753386423 / 9007199254740992)) False = Fin 20 \<and>
   \<lceil>28 * (6433713753386423 / 9007199254740992 :: real)\<rceil> = 21"
proof -
  have "exact (6433713753386423 / 9007199254740992)"
    by (rule exactI [of _ 6433713753386423 "- 53"]) simp_all
  moreover have "dotResolution (Fin (6433713753386423 / 9007199254740992)) False = Fin 20"
    using product_at_5_7 by (simp add: dotResolution_Fin)
  ultimately show ?thesis by simp
qed

text \<open>
  C8, amended. With \<open>perspectiveOn\<close> false the slice count does not decrease when the
  scale grows: for a positive scale \<open>s1\<close> and \<open>s1 <= s2\<close> the count at \<open>s1\<close> is at most
  the count at \<open>s2\<close>; and for a scale strictly between 5/28 and 32/28 the count is the
  ceiling of the double product \<open>28 * scale\<close>.
\<close>

theorem dot_resolution_monotone:
  "lt (Fin 0) s1 \<Longrightarrow> le s1 s2 \<Longrightarrow>
     le (dotResolution s1 False) (dotResolution s2 False) \<and>
     (\<forall>s. s1 = Fin s \<and> 5 / 28 < s \<and> s < 32 / 28 \<longrightarrow>
        dotResolution s1 False = Math_ceil (fmul (num 28) s1))"
proof (intro conjI allI impI)
  assume pos: "lt (Fin 0) s1" and le: "le s1 s2"
  show "le (dotResolution s1 False) (dotResolution s2 False)"
  proof (cases s1; cases s2)
    fix a b
    assume s: "s1 = Fin a" "s2 = Fin b"
    with le have "28 * a \<le> 28 * b" by simp
    then have "le (round64 (28 * a)) (round64 (28 * b))" by (rule round64_mono)
    then show ?thesis unfolding s dotResolution_Fin by (rule le_clamped)
  next
    fix a
    assume s: "s1 = Fin a" "s2 = PInf"
    obtain k where "5 \<le> k" "k \<le> 32" "dotResolution s1 False = Fin (of_int k)"
      using dotResolution_range [of s1 False] s by auto
    then show ?thesis using s by (simp add: dotResolution_inf)
  qed (use pos le in \<open>simp_all add: dotResolution_inf\<close>)
next
  fix s
  assume h: "s1 = Fin s \<and> 5 / 28 < s \<and> s < 32 / 28"
  then have "5 \<le> 28 * s" "28 * s \<le> 32" by simp_all
  then have l: "le (Fin 5) (round64 (28 * s))" "le (round64 (28 * s)) (Fin 32)"
    using round64_mono [of 5 "28 * s"] round64_mono [of "28 * s" 32]
    by (simp_all add: round64_5 round64_32)
  show "dotResolution s1 False = Math_ceil (fmul (num 28) s1)"
  proof (cases "round64 (28 * s)")
    case (Fin v)
    with l have "5 \<le> v" "v \<le> 32" by simp_all
    then have "(5::int) \<le> \<lceil>v\<rceil>" "\<lceil>v\<rceil> \<le> (32::int)"
      by (simp_all add: le_ceiling_iff ceiling_le_iff)
    with Fin h show ?thesis by (simp add: dotResolution_Fin lit_28)
  qed (use l in \<open>simp_all add: round64_not_NaN\<close>)
qed

theorem dot_resolution_monotone_witness:
  "le (dotResolution (Fin (1 / 2)) False) (dotResolution (Fin 1) False) \<and>
   dotResolution (Fin (1 / 2)) False = Fin 14"
proof -
  have h1: "lt (Fin 0) (Fin (1 / 2))" and h2: "le (Fin (1 / 2)) (Fin 1)" by simp_all
  note t = dot_resolution_monotone [OF h1 h2]
  have m: "fmul (num 28) (Fin (1 / 2)) = Fin 14"
    using round64_14 by (simp add: lit_28)
  have r: "(5::real) / 28 < 1 / 2" "(1::real) / 2 < 32 / 28" by simp_all
  from t r have "dotResolution (Fin (1 / 2)) False = Math_ceil (fmul (num 28) (Fin (1 / 2)))"
    by blast
  then have "dotResolution (Fin (1 / 2)) False = Fin 14" unfolding m by simp
  with t show ?thesis by blast
qed

section \<open>The length of the buffers\<close>

text \<open>
  C2. For every tile coordinate and colour the buffer returned by
  \<open>getDataLegalMoveCornerTris\<close> has exactly 72 numbers (4 triangles of 3 vertices of 6
  numbers), whatever the inputs and the board; so has every buffer built by
  \<open>getDataCornerTriangles\<close>.
\<close>

theorem corner_tris_length:
  "length (fst (getDataLegalMoveCornerTris gsquareCenter coords color bd)) = 72 \<and>
   length (getDataCornerTriangles centerX centerY triSize color) = 72"
proof -
  obtain cx cy where coords: "coords = (cx, cy)" by (cases coords)
  obtain r g b a where color: "color = (r, g, b, a)" by (cases color) auto
  show ?thesis
    unfolding coords color getDataLegalMoveCornerTris_call
    by (simp add: getDataCornerTriangles_length)
qed

text \<open>
  C3. If the circle primitive emits \<open>resolution\<close> triangles of 3 vertices of 6 numbers
  each (for the positive slice counts, the only ones the dot asks for), then the buffer
  returned by \<open>getDataLegalMoveDot\<close> has \<open>resolution \<times> 18\<close> numbers, and the buffers of
  both generators have a length that is a multiple of 18. The scale may be any number;
  when it is NaN the statement is about perspective mode, where the scale is not read.
\<close>

theorem dot_length_multiple_of_18:
  "(\<forall>x y radius n r g b a. 0 < n \<longrightarrow>
      length (getDataCircle x y radius (Fin (of_int n)) r g b a) = 18 * nat n) \<Longrightarrow>
   scale \<noteq> NaN \<or> perspectiveOn \<Longrightarrow>
   length (fst (getDataLegalMoveDot gsquareCenter getDataCircle coords color scale perspectiveOn bd))
     = sliceCount (dotResolution scale perspectiveOn) * 18 \<and>
   18 dvd length (fst (getDataLegalMoveDot gsquareCenter getDataCircle coords color scale
                         perspectiveOn bd)) \<and>
   18 dvd length (fst (getDataLegalMoveCornerTris gsquareCenter coords color bd))"
proof -
  assume circle: "\<forall>x y radius n r g b a. 0 < n \<longrightarrow>
      length (getDataCircle x y radius (Fin (of_int n)) r g b a) = 18 * nat n"
    and scale: "scale \<noteq> NaN \<or> perspectiveOn"
  obtain cx cy where coords: "coords = (cx, cy)" by (cases coords)
  obtain r g b a where color: "color = (r, g, b, a)" by (cases color) auto
  obtain k where k: "5 \<le> k" "k \<le> 32" "dotResolution scale perspectiveOn = Fin (of_int k)"
    using dotResolution_range [OF scale] by blast
  from k(1) have "0 < k" by simp
  with circle have "length (getDataCircle x y radius (Fin (of_int k)) r' g' b' a') = 18 * nat k"
    for x y radius r' g' b' a' by blast
  then have len: "length (fst (getDataLegalMoveDot gsquareCenter getDataCircle coords color scale
                            perspectiveOn bd))
               = sliceCount (dotResolution scale perspectiveOn) * 18"
    unfolding coords color getDataLegalMoveDot_call k(3) by simp
  have tris: "length (fst (getDataLegalMoveCornerTris gsquareCenter coords color bd)) = 72"
    unfolding coords color getDataLegalMoveCornerTris_call
    by (simp add: getDataCornerTriangles_length)
  have "(18::nat) dvd 72" by simp
  with len tris show ?thesis by simp
qed

theorem dot_length_multiple_of_18_witness:
  "length (fst (getDataLegalMoveDot board_gsquareCenter shapes_getDataCircle (Fin 0, Fin 0)
                  (Fin 1, Fin 0, Fin 0, Fin (1 / 2)) (Fin 1) False
                  \<lparr>squareCenter = Fin (1 / 2)\<rparr>)) = 504 \<and>
   length (fst (getDataLegalMoveDot board_gsquareCenter shapes_getDataCircle (Fin 2, Fin 3)
                  (Fin 0, Fin 1, Fin 0, Fin 0) (num (1 / 10)) True
                  \<lparr>squareCenter = Fin (1 / 2)\<rparr>)) = 576"
proof -
  have h: "\<forall>x y radius n r g b a. 0 < n \<longrightarrow>
      length (shapes_getDataCircle x y radius (Fin (of_int n)) r g b a) = 18 * nat n"
    by (simp add: shapes_getDataCircle_length)
  have s1: "Fin 1 \<noteq> NaN \<or> False" by simp
  have s2: "num (1 / 10) \<noteq> NaN \<or> True" by simp
  show ?thesis
    using
      dot_length_multiple_of_18 [OF h s1, of board_gsquareCenter "(Fin 0, Fin 0)"
        "(Fin 1, Fin 0, Fin 0, Fin (1 / 2))" "\<lparr>squareCenter = Fin (1 / 2)\<rparr>"]
      dot_length_multiple_of_18 [OF h s2, of board_gsquareCenter "(Fin 2, Fin 3)"
        "(Fin 0, Fin 1, Fin 0, Fin 0)" "\<lparr>squareCenter = Fin (1 / 2)\<rparr>"]
    by (simp add: dotResolution_1 dotResolution_persp)
qed

section \<open>Colour and position of the vertices\<close>

text \<open>
  C4 as stated says that the alpha emitted is exactly \<open>a + 0.2\<close>. The module adds in
  double arithmetic: for the alpha 0.1 it emits 0.30000000000000004, which is neither the
  sum of the double 0.1 and 0.2 nor the sum of the doubles 0.1 and 0.2.
\<close>

theorem alpha_exact_sum_counterexample:
  "num (1 / 10) = Fin (3602879701896397 / 36028797018963968) \<and>
   num (2 / 10) = Fin (3602879701896397 / 18014398509481984) \<and>
   map rgba (vertexList (fst (getDataLegalMoveCornerTris board_gsquareCenter (Fin 0, Fin 0)
                         (Fin 1, Fin 0, Fin 0, Fin (3602879701896397 / 36028797018963968))
                         \<lparr>squareCenter = Fin (1 / 2)\<rparr>)))
     = replicate 12 (Fin 1, Fin 0, Fin 0, Fin (1351079888211149 / 4503599627370496)) \<and>
   (3602879701896397 / 36028797018963968 + 2 / 10 :: real)
     \<noteq> 1351079888211149 / 4503599627370496 \<and>
   (3602879701896397 / 36028797018963968 + 3602879701896397 / 18014398509481984 :: real)
     \<noteq> 1351079888211149 / 4503599627370496"
proof -
  have "map rgba (vertexList (fst (getDataLegalMoveCornerTris board_gsquareCenter (Fin 0, Fin 0)
                         (Fin 1, Fin 0, Fin 0, Fin (3602879701896397 / 36028797018963968))
                         \<lparr>squareCenter = Fin (1 / 2)\<rparr>)))
     = replicate 12 (Fin 1, Fin 0, Fin 0, Fin (1351079888211149 / 4503599627370496))"
    unfolding getDataLegalMoveCornerTris_call fst_conv corner_colours
    using sum_01_02 by simp
  then show ?thesis using lit_0_1 lit_0_2 by simp
qed

text \<open>
  C4, amended. For every input colour \<open>[r, g, b, a]\<close> the alpha that both generators
  emit is the double sum \<open>a + 0.2\<close> (the exact sum of \<open>a\<close> and the double 0.2, rounded to
  the nearest double), with no upper clamp, and \<open>r\<close>, \<open>g\<close>, \<open>b\<close> pass through unchanged:
  each of the twelve vertices of the corner triangles carries these four channels, and so
  does every vertex of the dot, given that the circle primitive writes the colour it
  receives into every vertex it emits.
\<close>

theorem alpha_offset_unclamped:
  "(\<forall>x y radius resolution r' g' b' a'.
      list_all (\<lambda>v. rgba v = (r', g', b', a'))
        (vertexList (getDataCircle x y radius resolution r' g' b' a'))) \<Longrightarrow>
   list_all (\<lambda>v. rgba v = (r, g, b, fadd a (num (2 / 10))))
     (vertexList (fst (getDataLegalMoveDot gsquareCenter getDataCircle coords (r, g, b, a) scale
                         perspectiveOn bd))) \<and>
   map rgba (vertexList (fst (getDataLegalMoveCornerTris gsquareCenter coords (r, g, b, a) bd')))
     = replicate 12 (r, g, b, fadd a (num (2 / 10)))"
proof -
  assume circle: "\<forall>x y radius resolution r' g' b' a'.
      list_all (\<lambda>v. rgba v = (r', g', b', a'))
        (vertexList (getDataCircle x y radius resolution r' g' b' a'))"
  obtain cx cy where coords: "coords = (cx, cy)" by (cases coords)
  have dot: "list_all (\<lambda>v. rgba v = (r, g, b, fadd a (num (2 / 10))))
     (vertexList (fst (getDataLegalMoveDot gsquareCenter getDataCircle coords (r, g, b, a) scale
                         perspectiveOn bd)))"
    unfolding coords getDataLegalMoveDot_call fst_conv using circle by blast
  have tris: "map rgba
      (vertexList (fst (getDataLegalMoveCornerTris gsquareCenter coords (r, g, b, a) bd')))
     = replicate 12 (r, g, b, fadd a (num (2 / 10)))"
    unfolding coords getDataLegalMoveCornerTris_call fst_conv by (rule corner_colours)
  from dot tris show ?thesis ..
qed

theorem alpha_offset_unclamped_witness:
  "list_all (\<lambda>v. rgba v = (Fin 1, Fin 0, Fin 0, Fin (3152519739159347 / 4503599627370496)))
     (vertexList (fst (getDataLegalMoveDot board_gsquareCenter shapes_getDataCircle (Fin 0, Fin 0)
                         (Fin 1, Fin 0, Fin 0, Fin (1 / 2)) (Fin 1) False
                         \<lparr>squareCenter = Fin (1 / 2)\<rparr>))) \<and>
   map rgba (vertexList (fst (getDataLegalMoveCornerTris board_gsquareCenter (Fin 5, Fin 5)
                         (Fin 0, Fin 0, Fin 1, Fin (5404319552844595 / 18014398509481984))
                         \<lparr>squareCenter = Fin (1 / 2)\<rparr>)))
     = replicate 12 (Fin 0, Fin 0, Fin 1, Fin (1 / 2)) \<and>
   map rgba (vertexList (fst (getDataLegalMoveCornerTris board_gsquareCenter (Fin 5, Fin 5)
                         (Fin 0, Fin 0, Fin 1, Fin 1) \<lparr>squareCenter = Fin (1 / 2)\<rparr>)))
     = replicate 12 (Fin 0, Fin 0, Fin 1, Fin (5404319552844595 / 4503599627370496))"
proof -
  have h: "\<forall>x y radius resolution r' g' b' a'.
      list_all (\<lambda>v. rgba v = (r', g', b', a'))
        (vertexList (shapes_getDataCircle x y radius resolution r' g' b' a'))"
    by (simp add: shapes_getDataCircle_colour)
  show ?thesis
    using
      alpha_offset_unclamped [where getDataCircle = shapes_getDataCircle
        and r = "Fin 1" and g = "Fin 0" and b = "Fin 0" and a = "Fin (1 / 2)"
        and gsquareCenter = board_gsquareCenter and coords = "(Fin 0, Fin 0)" and scale = "Fin 1"
        and perspectiveOn = False and bd = "\<lparr>squareCenter = Fin (1 / 2)\<rparr>"
        and bd' = "\<lparr>squareCenter = Fin (1 / 2)\<rparr>", OF h]
      alpha_offset_unclamped [where getDataCircle = shapes_getDataCircle
        and r = "Fin 0" and g = "Fin 0" and b = "Fin 1" and a = "Fin (5404319552844595 / 18014398509481984)"
        and gsquareCenter = board_gsquareCenter and coords = "(Fin 5, Fin 5)" and scale = "Fin 1"
        and perspectiveOn = False and bd = "\<lparr>squareCenter = Fin (1 / 2)\<rparr>"
        and bd' = "\<lparr>squareCenter = Fin (1 / 2)\<rparr>", OF h]
      alpha_offset_unclamped [where getDataCircle = shapes_getDataCircle
        and r = "Fin 0" and g = "Fin 0" and b = "Fin 1" and a = "Fin 1"
        and gsquareCenter = board_gsquareCenter and coords = "(Fin 5, Fin 5)" and scale = "Fin 1"
        and perspectiveOn = False and bd = "\<lparr>squareCenter = Fin (1 / 2)\<rparr>"
        and bd' = "\<lparr>squareCenter = Fin (1 / 2)\<rparr>", OF h]
    by (simp add: sum_05_02 sum_03_02 sum_1_02)
qed

text \<open>
  C5 as stated says that the centre is \<open>coord + (1 - o) - 0.5\<close>. The module rounds after
  each of the three operations: for the tile coordinate \<open>2^52 + 1\<close> and the offset 0.5 it
  builds the corner triangles around the centre \<open>2^52 + 2\<close>, and the buffer differs from
  the one around \<open>2^52 + 1\<close>.
\<close>

theorem exact_centre_counterexample:
  "exact (2 ^ 52 + 1) \<and>
   fst (getDataLegalMoveCornerTris board_gsquareCenter (Fin (2 ^ 52 + 1), Fin 0)
          (Fin 1, Fin 0, Fin 0, Fin (1 / 2)) \<lparr>squareCenter = Fin (1 / 2)\<rparr>)
     = getDataCornerTriangles (Fin (2 ^ 52 + 2)) (Fin 0) (num (50 / 100))
         (Fin 1, Fin 0, Fin 0, fadd (Fin (1 / 2)) (num (2 / 10))) \<and>
   fst (getDataLegalMoveCornerTris board_gsquareCenter (Fin (2 ^ 52 + 1), Fin 0)
          (Fin 1, Fin 0, Fin 0, Fin (1 / 2)) \<lparr>squareCenter = Fin (1 / 2)\<rparr>)
     \<noteq> getDataCornerTriangles (Fin (2 ^ 52 + 1 + (1 - 1 / 2) - 1 / 2)) (Fin (0 + (1 - 1 / 2) - 1 / 2))
         (num (50 / 100)) (Fin 1, Fin 0, Fin 0, fadd (Fin (1 / 2)) (num (2 / 10)))"
proof -
  have e: "exact (2 ^ 52 + 1)"
    by (rule exactI [of _ "2 ^ 52 + 1" 0]) simp_all
  have call: "fst (getDataLegalMoveCornerTris board_gsquareCenter (Fin (2 ^ 52 + 1), Fin 0)
          (Fin 1, Fin 0, Fin 0, Fin (1 / 2)) \<lparr>squareCenter = Fin (1 / 2)\<rparr>)
     = getDataCornerTriangles (Fin (2 ^ 52 + 2)) (Fin 0) (Fin (1 / 2))
         (Fin 1, Fin 0, Fin 0, fadd (Fin (1 / 2)) (num (2 / 10)))"
    unfolding getDataLegalMoveCornerTris_call
    using centreOf_big centreOf_zero by (simp add: board_gsquareCenter_def)
  have h1: "hd (getDataCornerTriangles (Fin (2 ^ 52 + 2)) (Fin 0) (Fin (1 / 2))
         (Fin 1, Fin 0, Fin 0, fadd (Fin (1 / 2)) (num (2 / 10)))) = Fin (2 ^ 52 + 2)"
    unfolding hd_corner using round_big_2 by (simp add: fsub_def)
  have h2: "hd (getDataCornerTriangles (Fin (2 ^ 52 + 1)) (Fin 0) (Fin (1 / 2))
         (Fin 1, Fin 0, Fin 0, fadd (Fin (1 / 2)) (num (2 / 10)))) = Fin (2 ^ 52)"
    unfolding hd_corner using round_big_3 by (simp add: fsub_def)
  have ne: "getDataCornerTriangles (Fin (2 ^ 52 + 2)) (Fin 0) (Fin (1 / 2))
         (Fin 1, Fin 0, Fin 0, fadd (Fin (1 / 2)) (num (2 / 10)))
     \<noteq> getDataCornerTriangles (Fin (2 ^ 52 + 1)) (Fin 0) (Fin (1 / 2))
         (Fin 1, Fin 0, Fin 0, fadd (Fin (1 / 2)) (num (2 / 10)))"
  proof
    assume "getDataCornerTriangles (Fin (2 ^ 52 + 2)) (Fin 0) (Fin (1 / 2))
         (Fin 1, Fin 0, Fin 0, fadd (Fin (1 / 2)) (num (2 / 10)))
     = getDataCornerTriangles (Fin (2 ^ 52 + 1)) (Fin 0) (Fin (1 / 2))
         (Fin 1, Fin 0, Fin 0, fadd (Fin (1 / 2)) (num (2 / 10)))"
    with h1 h2 have "Fin (2 ^ 52 + 2) = Fin (2 ^ 52)" by simp
    then show False by simp
  qed
  have lit: "num (50 / 100) = Fin (1 / 2)" using lit_half by simp
  have arith: "(2 ^ 52 + 1 + (1 - 1 / 2) - 1 / 2 :: real) = 2 ^ 52 + 1"
    "(0 + (1 - 1 / 2) - 1 / 2 :: real) = 0" by simp_all
  show ?thesis unfolding lit arith call using e ne by simp
qed

text \<open>
  C5, amended. For every tile coordinate \<open>(cx, cy)\<close> and every board whose square-center
  offset reads as \<open>ofs\<close>, both generators place the centre of their shape at
  \<open>(cx + (1 - ofs)) - 0.5\<close> per axis, evaluated in double arithmetic from left to right,
  each of the three operations rounded to the nearest double: the dot hands this centre to
  the circle primitive, the corner triangles are built around it. Where none of the three
  operations rounds, this is the exact value \<open>cx + (1 - ofs) - 0.5\<close>.
\<close>

theorem tile_center_from_offset:
  "gsquareCenter bd = (ofs, bd) \<Longrightarrow>
   getDataLegalMoveDot gsquareCenter getDataCircle (cx, cy) (r, g, b, a) scale perspectiveOn bd
     = (getDataCircle
          (fsub (fadd cx (fsub (num 1) ofs)) (num (5 / 10)))
          (fsub (fadd cy (fsub (num 1) ofs)) (num (5 / 10)))
          (num (16 / 100)) (dotResolution scale perspectiveOn) r g b (fadd a (num (2 / 10))), bd) \<and>
   getDataLegalMoveCornerTris gsquareCenter (cx, cy) (r, g, b, a) bd
     = (getDataCornerTriangles
          (fsub (fadd cx (fsub (num 1) ofs)) (num (5 / 10)))
          (fsub (fadd cy (fsub (num 1) ofs)) (num (5 / 10)))
          (num (50 / 100)) (r, g, b, fadd a (num (2 / 10))), bd) \<and>
   (\<forall>c w. cx = Fin c \<and> ofs = Fin w \<and> centreExact c w \<longrightarrow>
      fsub (fadd cx (fsub (num 1) ofs)) (num (5 / 10)) = Fin (c + (1 - w) - 1 / 2))"
proof (intro conjI allI impI)
  assume rd: "gsquareCenter bd = (ofs, bd)"
  show "getDataLegalMoveDot gsquareCenter getDataCircle (cx, cy) (r, g, b, a) scale perspectiveOn bd
     = (getDataCircle
          (fsub (fadd cx (fsub (num 1) ofs)) (num (5 / 10)))
          (fsub (fadd cy (fsub (num 1) ofs)) (num (5 / 10)))
          (num (16 / 100)) (dotResolution scale perspectiveOn) r g b (fadd a (num (2 / 10))), bd)"
    by (simp add: getDataLegalMoveDot_call centreOf_def rd)
  show "getDataLegalMoveCornerTris gsquareCenter (cx, cy) (r, g, b, a) bd
     = (getDataCornerTriangles
          (fsub (fadd cx (fsub (num 1) ofs)) (num (5 / 10)))
          (fsub (fadd cy (fsub (num 1) ofs)) (num (5 / 10)))
          (num (50 / 100)) (r, g, b, fadd a (num (2 / 10))), bd)"
    by (simp add: getDataLegalMoveCornerTris_call centreOf_def rd lit_half)
next
  fix c w
  assume "cx = Fin c \<and> ofs = Fin w \<and> centreExact c w"
  then show "fsub (fadd cx (fsub (num 1) ofs)) (num (5 / 10)) = Fin (c + (1 - w) - 1 / 2)"
    using centreOf_exact [of c w] by (simp add: centreOf_def)
qed

theorem tile_center_from_offset_witness:
  "getDataLegalMoveCornerTris board_gsquareCenter (Fin 5, Fin 5)
       (Fin 0, Fin 0, Fin 1, Fin (5404319552844595 / 18014398509481984))
       \<lparr>squareCenter = Fin (1 / 2)\<rparr>
     = (getDataCornerTriangles (Fin 5) (Fin 5) (Fin (1 / 2)) (Fin 0, Fin 0, Fin 1, Fin (1 / 2)),
        \<lparr>squareCenter = Fin (1 / 2)\<rparr>) \<and>
   fsub (fadd (Fin 5) (fsub (num 1) (Fin (1 / 2)))) (num (5 / 10)) = Fin 5"
proof -
  have h: "board_gsquareCenter \<lparr>squareCenter = Fin (1 / 2)\<rparr>
             = (Fin (1 / 2), \<lparr>squareCenter = Fin (1 / 2)\<rparr>)"
    by (simp add: board_gsquareCenter_def)
  note t = tile_center_from_offset [where gsquareCenter = board_gsquareCenter
        and bd = "\<lparr>squareCenter = Fin (1 / 2)\<rparr>" and ofs = "Fin (1 / 2)"
        and getDataCircle = shapes_getDataCircle and cx = "Fin 5" and cy = "Fin 5"
        and r = "Fin 0" and g = "Fin 0" and b = "Fin 1"
        and a = "Fin (5404319552844595 / 18014398509481984)"
        and scale = "Fin 1" and perspectiveOn = False, OF h]
  from t have "\<forall>c w. Fin 5 = Fin c \<and> Fin (1 / 2) = Fin w \<and> centreExact c w \<longrightarrow>
      fsub (fadd (Fin 5) (fsub (num 1) (Fin (1 / 2)))) (num (5 / 10)) = Fin (c + (1 - w) - 1 / 2)"
    by blast
  with centreExact_5
  have "fsub (fadd (Fin 5) (fsub (num 1) (Fin (1 / 2)))) (num (5 / 10)) = Fin (5 + (1 - 1 / 2) - 1 / 2)"
    by blast
  then have c: "fsub (fadd (Fin 5) (fsub (num 1) (Fin (1 / 2)))) (num (5 / 10)) = Fin 5"
    by simp
  from t c show ?thesis by (simp add: lit_half sum_03_02)
qed

text \<open>
  C6 as stated puts the second and third vertex of each triangle 0.25 from the corner. The
  module adds 0.25 in double arithmetic: for the tile coordinate 3000000000000000 and the
  offset 0.5 the top-left corner has x = 2999999999999999.5 and the second vertex has
  x = 3000000000000000, which is 0.5 from the corner.
\<close>

theorem quarter_offset_counterexample:
  "exact 3000000000000000 \<and>
   take 2 (map position
     (vertexList (fst (getDataLegalMoveCornerTris board_gsquareCenter (Fin 3000000000000000, Fin 0)
                         (Fin 1, Fin 0, Fin 0, Fin (1 / 2)) \<lparr>squareCenter = Fin (1 / 2)\<rparr>))))
   = [(Fin (3000000000000000 - 1 / 2), Fin (1 / 2)), (Fin 3000000000000000, Fin (1 / 2))] \<and>
   (3000000000000000 - (3000000000000000 - 1 / 2) :: real) \<noteq> 1 / 4"
proof -
  have e: "exact 3000000000000000"
    by (rule exactI [of _ 3000000000000000 0]) simp_all
  have e2: "exact (3000000000000000 - 1 / 2)"
    by (rule exactI [of _ 5999999999999999 "- 1"]) simp_all
  have 1: "fsub (Fin 3000000000000000) (Fin (1 / 2)) = Fin (3000000000000000 - 1 / 2)"
    by (rule fsub_exact [OF e2]) simp
  have 2: "fadd (Fin (3000000000000000 - 1 / 2)) (Fin (1 / 4)) = Fin 3000000000000000"
    using round_3e15 by simp
  have 3: "fadd (Fin 0) (Fin (1 / 2)) = Fin (1 / 2)"
    by (rule fadd_exact [OF exact_half]) simp
  have "take 2 (map position
     (vertexList (fst (getDataLegalMoveCornerTris board_gsquareCenter (Fin 3000000000000000, Fin 0)
                         (Fin 1, Fin 0, Fin 0, Fin (1 / 2)) \<lparr>squareCenter = Fin (1 / 2)\<rparr>))))
   = [(Fin (3000000000000000 - 1 / 2), Fin (1 / 2)), (Fin 3000000000000000, Fin (1 / 2))]"
    unfolding getDataLegalMoveCornerTris_call fst_conv positions_buffer
    using centreOf_3e15 centreOf_zero 1 2 3 by (simp add: board_gsquareCenter_def)
  with e show ?thesis by simp
qed

text \<open>
  C6, amended. The corner triangles are emitted in the order top-left, top-right,
  bottom-left, bottom-right. With \<open>X\<close>, \<open>Y\<close> the centre computed by lines 113 and 114, the
  first vertex of each is the corner of the tile, \<open>X\<close> and \<open>Y\<close> moved by 0.5 in double
  arithmetic; the second is the corner with 0.25 added to or subtracted from its x,
  towards the inside of the tile, the sum rounded to the nearest double; the third is the
  corner with 0.25 subtracted from or added to its y, likewise; 0.25 is half of the
  triangle size 0.50. Where these sums do not round, the second and third vertex lie
  exactly 0.25 from the corner.
\<close>

theorem corner_triangle_vertices:
  "map position
     (vertexList (fst (getDataLegalMoveCornerTris gsquareCenter (cx, cy) color bd)))
   = (let X = fsub (fadd cx (fsub (num 1) (fst (gsquareCenter bd)))) (num (5 / 10));
          Y = fsub (fadd cy (fsub (num 1) (fst (gsquareCenter (snd (gsquareCenter bd))))))
                (num (5 / 10));
          h = Fin (1 / 2);
          q = Fin (1 / 4)
      in [(fsub X h, fadd Y h), (fadd (fsub X h) q, fadd Y h), (fsub X h, fsub (fadd Y h) q),
          (fadd X h, fadd Y h), (fsub (fadd X h) q, fadd Y h), (fadd X h, fsub (fadd Y h) q),
          (fsub X h, fsub Y h), (fadd (fsub X h) q, fsub Y h), (fsub X h, fadd (fsub Y h) q),
          (fadd X h, fsub Y h), (fsub (fadd X h) q, fsub Y h), (fadd X h, fadd (fsub Y h) q)]) \<and>
   (\<forall>x y. fsub (fadd cx (fsub (num 1) (fst (gsquareCenter bd)))) (num (5 / 10)) = Fin x \<and>
          fsub (fadd cy (fsub (num 1) (fst (gsquareCenter (snd (gsquareCenter bd))))))
            (num (5 / 10)) = Fin y \<and>
          cornerExact x \<and> cornerExact y \<longrightarrow>
      map position
        (vertexList (fst (getDataLegalMoveCornerTris gsquareCenter (cx, cy) color bd)))
      = [(Fin (x - 1 / 2), Fin (y + 1 / 2)), (Fin (x - 1 / 2 + 1 / 4), Fin (y + 1 / 2)),
           (Fin (x - 1 / 2), Fin (y + 1 / 2 - 1 / 4)),
         (Fin (x + 1 / 2), Fin (y + 1 / 2)), (Fin (x + 1 / 2 - 1 / 4), Fin (y + 1 / 2)),
           (Fin (x + 1 / 2), Fin (y + 1 / 2 - 1 / 4)),
         (Fin (x - 1 / 2), Fin (y - 1 / 2)), (Fin (x - 1 / 2 + 1 / 4), Fin (y - 1 / 2)),
           (Fin (x - 1 / 2), Fin (y - 1 / 2 + 1 / 4)),
         (Fin (x + 1 / 2), Fin (y - 1 / 2)), (Fin (x + 1 / 2 - 1 / 4), Fin (y - 1 / 2)),
           (Fin (x + 1 / 2), Fin (y - 1 / 2 + 1 / 4))])"
proof (intro conjI allI impI)
  obtain r g b a where color: "color = (r, g, b, a)" by (cases color) auto
  show "map position
     (vertexList (fst (getDataLegalMoveCornerTris gsquareCenter (cx, cy) color bd)))
   = (let X = fsub (fadd cx (fsub (num 1) (fst (gsquareCenter bd)))) (num (5 / 10));
          Y = fsub (fadd cy (fsub (num 1) (fst (gsquareCenter (snd (gsquareCenter bd))))))
                (num (5 / 10));
          h = Fin (1 / 2);
          q = Fin (1 / 4)
      in [(fsub X h, fadd Y h), (fadd (fsub X h) q, fadd Y h), (fsub X h, fsub (fadd Y h) q),
          (fadd X h, fadd Y h), (fsub (fadd X h) q, fadd Y h), (fadd X h, fsub (fadd Y h) q),
          (fsub X h, fsub Y h), (fadd (fsub X h) q, fsub Y h), (fsub X h, fadd (fsub Y h) q),
          (fadd X h, fsub Y h), (fsub (fadd X h) q, fsub Y h), (fadd X h, fadd (fsub Y h) q)])"
    unfolding color getDataLegalMoveCornerTris_call fst_conv positions_buffer
    by (simp add: centreOf_def Let_def)
next
  fix x y
  obtain r g b a where color: "color = (r, g, b, a)" by (cases color) auto
  assume "fsub (fadd cx (fsub (num 1) (fst (gsquareCenter bd)))) (num (5 / 10)) = Fin x \<and>
          fsub (fadd cy (fsub (num 1) (fst (gsquareCenter (snd (gsquareCenter bd))))))
            (num (5 / 10)) = Fin y \<and>
          cornerExact x \<and> cornerExact y"
  then have X: "centreOf cx (fst (gsquareCenter bd)) = Fin x"
    and Y: "centreOf cy (fst (gsquareCenter (snd (gsquareCenter bd)))) = Fin y"
    and ex: "cornerExact x" "cornerExact y"
    by (simp_all add: centreOf_def)
  show "map position
        (vertexList (fst (getDataLegalMoveCornerTris gsquareCenter (cx, cy) color bd)))
      = [(Fin (x - 1 / 2), Fin (y + 1 / 2)), (Fin (x - 1 / 2 + 1 / 4), Fin (y + 1 / 2)),
           (Fin (x - 1 / 2), Fin (y + 1 / 2 - 1 / 4)),
         (Fin (x + 1 / 2), Fin (y + 1 / 2)), (Fin (x + 1 / 2 - 1 / 4), Fin (y + 1 / 2)),
           (Fin (x + 1 / 2), Fin (y + 1 / 2 - 1 / 4)),
         (Fin (x - 1 / 2), Fin (y - 1 / 2)), (Fin (x - 1 / 2 + 1 / 4), Fin (y - 1 / 2)),
           (Fin (x - 1 / 2), Fin (y - 1 / 2 + 1 / 4)),
         (Fin (x + 1 / 2), Fin (y - 1 / 2)), (Fin (x + 1 / 2 - 1 / 4), Fin (y - 1 / 2)),
           (Fin (x + 1 / 2), Fin (y - 1 / 2 + 1 / 4))]"
    unfolding color getDataLegalMoveCornerTris_call fst_conv X Y positions_exact [OF ex]
    by simp
qed

theorem corner_triangle_vertices_witness:
  "map position
     (vertexList (fst (getDataLegalMoveCornerTris board_gsquareCenter (Fin 5, Fin 5)
                         (Fin 0, Fin 0, Fin 1, Fin (1 / 2)) \<lparr>squareCenter = Fin (1 / 2)\<rparr>)))
   = [(Fin (9 / 2), Fin (11 / 2)), (Fin (19 / 4), Fin (11 / 2)), (Fin (9 / 2), Fin (21 / 4)),
      (Fin (11 / 2), Fin (11 / 2)), (Fin (21 / 4), Fin (11 / 2)), (Fin (11 / 2), Fin (21 / 4)),
      (Fin (9 / 2), Fin (9 / 2)), (Fin (19 / 4), Fin (9 / 2)), (Fin (9 / 2), Fin (19 / 4)),
      (Fin (11 / 2), Fin (9 / 2)), (Fin (21 / 4), Fin (9 / 2)), (Fin (11 / 2), Fin (19 / 4))]"
proof -
  have c: "fsub (fadd (Fin 5) (fsub (num 1) (Fin (1 / 2)))) (num (5 / 10)) = Fin 5"
    using centreOf_exact [OF centreExact_5] by (simp add: centreOf_def)
  note t = corner_triangle_vertices [where gsquareCenter = board_gsquareCenter
      and cx = "Fin 5" and cy = "Fin 5" and color = "(Fin 0, Fin 0, Fin 1, Fin (1 / 2))"
      and bd = "\<lparr>squareCenter = Fin (1 / 2)\<rparr>"]
  from t have "\<forall>x y.
      fsub (fadd (Fin 5) (fsub (num 1)
        (fst (board_gsquareCenter \<lparr>squareCenter = Fin (1 / 2)\<rparr>)))) (num (5 / 10)) = Fin x \<and>
      fsub (fadd (Fin 5) (fsub (num 1)
        (fst (board_gsquareCenter (snd (board_gsquareCenter \<lparr>squareCenter = Fin (1 / 2)\<rparr>))))))
        (num (5 / 10)) = Fin y \<and>
      cornerExact x \<and> cornerExact y \<longrightarrow>
      map position
        (vertexList (fst (getDataLegalMoveCornerTris board_gsquareCenter (Fin 5, Fin 5)
                         (Fin 0, Fin 0, Fin 1, Fin (1 / 2)) \<lparr>squareCenter = Fin (1 / 2)\<rparr>)))
      = [(Fin (x - 1 / 2), Fin (y + 1 / 2)), (Fin (x - 1 / 2 + 1 / 4), Fin (y + 1 / 2)),
           (Fin (x - 1 / 2), Fin (y + 1 / 2 - 1 / 4)),
         (Fin (x + 1 / 2), Fin (y + 1 / 2)), (Fin (x + 1 / 2 - 1 / 4), Fin (y + 1 / 2)),
           (Fin (x + 1 / 2), Fin (y + 1 / 2 - 1 / 4)),
         (Fin (x - 1 / 2), Fin (y - 1 / 2)), (Fin (x - 1 / 2 + 1 / 4), Fin (y - 1 / 2)),
           (Fin (x - 1 / 2), Fin (y - 1 / 2 + 1 / 4)),
         (Fin (x + 1 / 2), Fin (y - 1 / 2)), (Fin (x + 1 / 2 - 1 / 4), Fin (y - 1 / 2)),
           (Fin (x + 1 / 2), Fin (y - 1 / 2 + 1 / 4))]"
    by blast
  then have "map position
        (vertexList (fst (getDataLegalMoveCornerTris board_gsquareCenter (Fin 5, Fin 5)
                         (Fin 0, Fin 0, Fin 1, Fin (1 / 2)) \<lparr>squareCenter = Fin (1 / 2)\<rparr>)))
      = [(Fin (5 - 1 / 2), Fin (5 + 1 / 2)), (Fin (5 - 1 / 2 + 1 / 4), Fin (5 + 1 / 2)),
           (Fin (5 - 1 / 2), Fin (5 + 1 / 2 - 1 / 4)),
         (Fin (5 + 1 / 2), Fin (5 + 1 / 2)), (Fin (5 + 1 / 2 - 1 / 4), Fin (5 + 1 / 2)),
           (Fin (5 + 1 / 2), Fin (5 + 1 / 2 - 1 / 4)),
         (Fin (5 - 1 / 2), Fin (5 - 1 / 2)), (Fin (5 - 1 / 2 + 1 / 4), Fin (5 - 1 / 2)),
           (Fin (5 - 1 / 2), Fin (5 - 1 / 2 + 1 / 4)),
         (Fin (5 + 1 / 2), Fin (5 - 1 / 2)), (Fin (5 + 1 / 2 - 1 / 4), Fin (5 - 1 / 2)),
           (Fin (5 + 1 / 2), Fin (5 - 1 / 2 + 1 / 4))]"
    using c cornerExact_5 by (simp add: board_gsquareCenter_def)
  then show ?thesis by simp
qed

text \<open>
  C7. The claim is that the four corner triangles share one clockwise winding, as the
  comment on the first of them says (``triangles are clockwise in each corner''). They do
  not: wherever the arithmetic of the tile is exact, twice the signed area of the four
  triangles is \<open>-1/16\<close>, \<open>1/16\<close>, \<open>1/16\<close>, \<open>-1/16\<close>. The top-left and bottom-right
  triangles run clockwise, the top-right and bottom-left ones counter-clockwise, since the
  second and third vertex are mirrored from corner to corner but emitted in the same
  order. The tile (0, 0) with the offset 0.5 is such an input. (That the four triangles
  carry one colour is part of C4.)
\<close>

theorem corner_triangles_winding_alternates:
  "fst (gsquareCenter bd) = Fin w1 \<Longrightarrow>
   fst (gsquareCenter (snd (gsquareCenter bd))) = Fin w2 \<Longrightarrow>
   tileExact cx w1 \<Longrightarrow> tileExact cy w2 \<Longrightarrow>
   map signedArea2
     (triangleList (vertexList
        (fst (getDataLegalMoveCornerTris gsquareCenter (Fin cx, Fin cy) color bd))))
   = [- (1 / 16), 1 / 16, 1 / 16, - (1 / 16)]"
proof -
  assume rd: "fst (gsquareCenter bd) = Fin w1"
    "fst (gsquareCenter (snd (gsquareCenter bd))) = Fin w2"
    and ex: "tileExact cx w1" "tileExact cy w2"
  obtain r g b a where color: "color = (r, g, b, a)" by (cases color) auto
  from ex have c: "centreOf (Fin cx) (Fin w1) = Fin (cx + (1 - w1) - 1 / 2)"
    "centreOf (Fin cy) (Fin w2) = Fin (cy + (1 - w2) - 1 / 2)"
    by (simp_all add: tileExact_def centreOf_exact)
  from ex have k: "cornerExact (cx + (1 - w1) - 1 / 2)" "cornerExact (cy + (1 - w2) - 1 / 2)"
    by (simp_all add: tileExact_def)
  show ?thesis
    unfolding color getDataLegalMoveCornerTris_call fst_conv rd c
    by (rule areas_exact [OF k])
qed

theorem corner_triangles_winding_alternates_witness:
  "map signedArea2
     (triangleList (vertexList
        (fst (getDataLegalMoveCornerTris board_gsquareCenter (Fin 0, Fin 0)
                (Fin 1, Fin 0, Fin 0, Fin (1 / 2)) \<lparr>squareCenter = Fin (1 / 2)\<rparr>))))
   = [- (1 / 16), 1 / 16, 1 / 16, - (1 / 16)]"
proof -
  have r1: "fst (board_gsquareCenter \<lparr>squareCenter = Fin (1 / 2)\<rparr>) = Fin (1 / 2)"
    and r2: "fst (board_gsquareCenter (snd (board_gsquareCenter \<lparr>squareCenter = Fin (1 / 2)\<rparr>)))
              = Fin (1 / 2)"
    by (simp_all add: board_gsquareCenter_def)
  show ?thesis
    by (rule corner_triangles_winding_alternates [OF r1 r2 tileExact_0 tileExact_0])
qed

text \<open>
  C10 as stated says that the buffer for the tile \<open>(cx, cy)\<close> is the buffer for the tile
  \<open>(0, 0)\<close> with \<open>cx\<close> and \<open>cy\<close> added. In double arithmetic the two roundings differ: for
  the tile \<open>(2^52 + 1, 0)\<close> and the offset 0.5 the first number of the buffer is
  \<open>2^52 + 2\<close>, and the first number of the translated buffer of \<open>(0, 0)\<close> is \<open>2^52\<close>.
\<close>

theorem translation_counterexample:
  "exact (2 ^ 52 + 1) \<and>
   hd (fst (getDataLegalMoveCornerTris board_gsquareCenter (Fin (2 ^ 52 + 1), Fin 0)
              (Fin 1, Fin 0, Fin 0, Fin (1 / 2)) \<lparr>squareCenter = Fin (1 / 2)\<rparr>))
     = Fin (2 ^ 52 + 2) \<and>
   hd (translateBuffer (Fin (2 ^ 52 + 1)) (Fin 0)
         (fst (getDataLegalMoveCornerTris board_gsquareCenter (Fin 0, Fin 0)
                 (Fin 1, Fin 0, Fin 0, Fin (1 / 2)) \<lparr>squareCenter = Fin (1 / 2)\<rparr>)))
     = Fin (2 ^ 52) \<and>
   fst (getDataLegalMoveCornerTris board_gsquareCenter (Fin (2 ^ 52 + 1), Fin 0)
          (Fin 1, Fin 0, Fin 0, Fin (1 / 2)) \<lparr>squareCenter = Fin (1 / 2)\<rparr>)
     \<noteq> translateBuffer (Fin (2 ^ 52 + 1)) (Fin 0)
         (fst (getDataLegalMoveCornerTris board_gsquareCenter (Fin 0, Fin 0)
                 (Fin 1, Fin 0, Fin 0, Fin (1 / 2)) \<lparr>squareCenter = Fin (1 / 2)\<rparr>))"
proof -
  let ?L = "fst (getDataLegalMoveCornerTris board_gsquareCenter (Fin (2 ^ 52 + 1), Fin 0)
          (Fin 1, Fin 0, Fin 0, Fin (1 / 2)) \<lparr>squareCenter = Fin (1 / 2)\<rparr>)"
  let ?R = "translateBuffer (Fin (2 ^ 52 + 1)) (Fin 0)
         (fst (getDataLegalMoveCornerTris board_gsquareCenter (Fin 0, Fin 0)
                 (Fin 1, Fin 0, Fin 0, Fin (1 / 2)) \<lparr>squareCenter = Fin (1 / 2)\<rparr>))"
  have e: "exact (2 ^ 52 + 1)"
    by (rule exactI [of _ "2 ^ 52 + 1" 0]) simp_all
  have l: "hd ?L = Fin (2 ^ 52 + 2)"
    unfolding getDataLegalMoveCornerTris_call fst_conv hd_corner
    using centreOf_big round_big_2 by (simp add: board_gsquareCenter_def fsub_def)
  have "fst (getDataLegalMoveCornerTris board_gsquareCenter (Fin 0, Fin 0)
                 (Fin 1, Fin 0, Fin 0, Fin (1 / 2)) \<lparr>squareCenter = Fin (1 / 2)\<rparr>)
        = getDataCornerTriangles (Fin 0) (Fin 0) (Fin (1 / 2))
            (Fin 1, Fin 0, Fin 0, fadd (Fin (1 / 2)) (num (2 / 10)))"
    unfolding getDataLegalMoveCornerTris_call fst_conv
    using centreOf_zero by (simp add: board_gsquareCenter_def)
  then have r: "hd ?R = Fin (2 ^ 52)"
    unfolding getDataCornerTriangles_exact [OF cornerExact_0 cornerExact_0]
    using round_big_4 by simp
  have "?L \<noteq> ?R"
  proof
    assume "?L = ?R"
    with l r have "Fin (2 ^ 52 + 2) = Fin (2 ^ 52)" by simp
    then show False by simp
  qed
  with e l r show ?thesis by blast
qed

text \<open>
  C10, amended. \<open>getDataLegalMoveCornerTris\<close> commutes with translation of the tile
  coordinate wherever no addition or subtraction on the way rounds: for every colour, and
  every board offset and tile \<open>(cx, cy)\<close> such that the arithmetic of the tile \<open>(cx, cy)\<close>
  and of the tile \<open>(0, 0)\<close> is exact, the buffer for \<open>(cx, cy)\<close> is the buffer for
  \<open>(0, 0)\<close> with \<open>cx\<close> added to the x and \<open>cy\<close> to the y of every vertex, colours
  untouched. In particular this holds for the offset 0.5 and all integer tile coordinates
  of magnitude at most \<open>2^50\<close>.
\<close>

theorem corner_tris_translation_equivariant:
  "(fst (gsquareCenter bd) = Fin wx \<and>
    fst (gsquareCenter (snd (gsquareCenter bd))) = Fin wy \<and>
    tileExact cx wx \<and> tileExact 0 wx \<and> tileExact cy wy \<and> tileExact 0 wy \<longrightarrow>
    fst (getDataLegalMoveCornerTris gsquareCenter (Fin cx, Fin cy) color bd)
      = translateBuffer (Fin cx) (Fin cy)
          (fst (getDataLegalMoveCornerTris gsquareCenter (Fin 0, Fin 0) color bd))) \<and>
   (fst (gsquareCenter bd) = Fin (1 / 2) \<and>
    fst (gsquareCenter (snd (gsquareCenter bd))) = Fin (1 / 2) \<and>
    \<bar>i\<bar> \<le> 2 ^ 50 \<and> \<bar>j\<bar> \<le> 2 ^ 50 \<longrightarrow>
    fst (getDataLegalMoveCornerTris gsquareCenter (Fin (of_int i), Fin (of_int j)) color bd)
      = translateBuffer (Fin (of_int i)) (Fin (of_int j))
          (fst (getDataLegalMoveCornerTris gsquareCenter (Fin 0, Fin 0) color bd)))"
proof (intro conjI impI)
  assume "fst (gsquareCenter bd) = Fin wx \<and>
    fst (gsquareCenter (snd (gsquareCenter bd))) = Fin wy \<and>
    tileExact cx wx \<and> tileExact 0 wx \<and> tileExact cy wy \<and> tileExact 0 wy"
  then have "fst (gsquareCenter bd) = Fin wx"
    "fst (gsquareCenter (snd (gsquareCenter bd))) = Fin wy"
    "tileExact cx wx" "tileExact 0 wx" "tileExact cy wy" "tileExact 0 wy"
    by simp_all
  then show "fst (getDataLegalMoveCornerTris gsquareCenter (Fin cx, Fin cy) color bd)
      = translateBuffer (Fin cx) (Fin cy)
          (fst (getDataLegalMoveCornerTris gsquareCenter (Fin 0, Fin 0) color bd))"
    by (rule translation_exact)
next
  assume h: "fst (gsquareCenter bd) = Fin (1 / 2) \<and>
    fst (gsquareCenter (snd (gsquareCenter bd))) = Fin (1 / 2) \<and>
    \<bar>i\<bar> \<le> 2 ^ 50 \<and> \<bar>j\<bar> \<le> 2 ^ 50"
  then have e: "tileExact (of_int i) (1 / 2)" "tileExact (of_int j) (1 / 2)"
    by (simp_all add: tileExact_int)
  have z: "tileExact 0 (1 / 2)" using tileExact_int [of 0] by simp
  from h have r: "fst (gsquareCenter bd) = Fin (1 / 2)"
    "fst (gsquareCenter (snd (gsquareCenter bd))) = Fin (1 / 2)"
    by simp_all
  show "fst (getDataLegalMoveCornerTris gsquareCenter (Fin (of_int i), Fin (of_int j)) color bd)
      = translateBuffer (Fin (of_int i)) (Fin (of_int j))
          (fst (getDataLegalMoveCornerTris gsquareCenter (Fin 0, Fin 0) color bd))"
    by (rule translation_exact [OF r e(1) z e(2) z])
qed

theorem corner_tris_translation_equivariant_witness:
  "fst (getDataLegalMoveCornerTris board_gsquareCenter (Fin 3, Fin (- 2))
          (Fin 1, Fin 0, Fin 0, Fin (1 / 2)) \<lparr>squareCenter = Fin (1 / 2)\<rparr>)
     = translateBuffer (Fin 3) (Fin (- 2))
         (fst (getDataLegalMoveCornerTris board_gsquareCenter (Fin 0, Fin 0)
                 (Fin 1, Fin 0, Fin 0, Fin (1 / 2)) \<lparr>squareCenter = Fin (1 / 2)\<rparr>)) \<and>
   fst (getDataLegalMoveCornerTris board_gsquareCenter (Fin (- 7), Fin 1000000)
          (Fin 1, Fin 0, Fin 0, Fin (1 / 2)) \<lparr>squareCenter = Fin (1 / 2)\<rparr>)
     = translateBuffer (Fin (- 7)) (Fin 1000000)
         (fst (getDataLegalMoveCornerTris board_gsquareCenter (Fin 0, Fin 0)
                 (Fin 1, Fin 0, Fin 0, Fin (1 / 2)) \<lparr>squareCenter = Fin (1 / 2)\<rparr>))"
proof -
  have r: "fst (board_gsquareCenter \<lparr>squareCenter = Fin (1 / 2)\<rparr>) = Fin (1 / 2)"
    "fst (board_gsquareCenter (snd (board_gsquareCenter \<lparr>squareCenter = Fin (1 / 2)\<rparr>)))
       = Fin (1 / 2)"
    by (simp_all add: board_gsquareCenter_def)
  note t = corner_tris_translation_equivariant [where gsquareCenter = board_gsquareCenter
      and bd = "\<lparr>squareCenter = Fin (1 / 2)\<rparr>" and wx = "1 / 2" and wy = "1 / 2"
      and cx = 3 and cy = "- 2" and i = "- 7" and j = 1000000
      and color = "(Fin 1, Fin 0, Fin 0, Fin (1 / 2))"]
  have b: "\<bar>- 7 :: int\<bar> \<le> 2 ^ 50" "\<bar>1000000 :: int\<bar> \<le> 2 ^ 50" by simp_all
  from t r tileExact_3 tileExact_0 tileExact_m2
  have 1: "fst (getDataLegalMoveCornerTris board_gsquareCenter (Fin 3, Fin (- 2))
          (Fin 1, Fin 0, Fin 0, Fin (1 / 2)) \<lparr>squareCenter = Fin (1 / 2)\<rparr>)
     = translateBuffer (Fin 3) (Fin (- 2))
         (fst (getDataLegalMoveCornerTris board_gsquareCenter (Fin 0, Fin 0)
                 (Fin 1, Fin 0, Fin 0, Fin (1 / 2)) \<lparr>squareCenter = Fin (1 / 2)\<rparr>))"
    by blast
  from t r b
  have "fst (getDataLegalMoveCornerTris board_gsquareCenter
               (Fin (of_int (- 7)), Fin (of_int 1000000))
          (Fin 1, Fin 0, Fin 0, Fin (1 / 2)) \<lparr>squareCenter = Fin (1 / 2)\<rparr>)
     = translateBuffer (Fin (of_int (- 7))) (Fin (of_int 1000000))
         (fst (getDataLegalMoveCornerTris board_gsquareCenter (Fin 0, Fin 0)
                 (Fin 1, Fin 0, Fin 0, Fin (1 / 2)) \<lparr>squareCenter = Fin (1 / 2)\<rparr>))"
    by blast
  then have 2: "fst (getDataLegalMoveCornerTris board_gsquareCenter (Fin (- 7), Fin 1000000)
          (Fin 1, Fin 0, Fin 0, Fin (1 / 2)) \<lparr>squareCenter = Fin (1 / 2)\<rparr>)
     = translateBuffer (Fin (- 7)) (Fin 1000000)
         (fst (getDataLegalMoveCornerTris board_gsquareCenter (Fin 0, Fin 0)
                 (Fin 1, Fin 0, Fin 0, Fin (1 / 2)) \<lparr>squareCenter = Fin (1 / 2)\<rparr>))"
    by simp
  from 1 2 show ?thesis ..
qed

section \<open>Reads of the board\<close>

text \<open>
  C9 as stated says that one generator call reads the square-center offset exactly once.
  Both generators call \<open>board.gsquareCenter()\<close> once for \<open>x\<close> and once more for \<open>y\<close>: on
  a board whose read counter starts at 0 the counter is not 1 after either generator.
\<close>

theorem offset_read_once_counterexample:
  "fst (snd (getDataLegalMoveDot (counting board_gsquareCenter) shapes_getDataCircle (Fin 0, Fin 0)
               (Fin 1, Fin 0, Fin 0, Fin (1 / 2)) (Fin 1) False
               (0, \<lparr>squareCenter = Fin (1 / 2)\<rparr>))) \<noteq> 1 \<and>
   fst (snd (getDataLegalMoveCornerTris (counting board_gsquareCenter) (Fin 0, Fin 0)
               (Fin 1, Fin 0, Fin 0, Fin (1 / 2)) (0, \<lparr>squareCenter = Fin (1 / 2)\<rparr>))) \<noteq> 1"
  by (simp add: getDataLegalMoveDot_call getDataLegalMoveCornerTris_call counting_def
        board_gsquareCenter_def)

text \<open>
  C9, amended. One call of either generator reads the square-center offset exactly
  twice: \<open>x\<close> is computed from the first reading and \<open>y\<close> from the second. With the
  read-only getter of the board both readings are the stored offset, so both components
  come from the same value.
\<close>

theorem offset_read_twice:
  "snd (getDataLegalMoveDot (counting gsquareCenter) getDataCircle (cx, cy) (r, g, b, a) scale
          perspectiveOn (n, bd))
     = (n + 2, snd (gsquareCenter (snd (gsquareCenter bd)))) \<and>
   snd (getDataLegalMoveCornerTris (counting gsquareCenter) (cx, cy) (r, g, b, a) (n, bd))
     = (n + 2, snd (gsquareCenter (snd (gsquareCenter bd)))) \<and>
   fst (getDataLegalMoveDot (counting gsquareCenter) getDataCircle (cx, cy) (r, g, b, a) scale
          perspectiveOn (n, bd))
     = getDataCircle
         (fsub (fadd cx (fsub (num 1) (fst (gsquareCenter bd)))) (num (5 / 10)))
         (fsub (fadd cy (fsub (num 1) (fst (gsquareCenter (snd (gsquareCenter bd))))))
            (num (5 / 10)))
         (num (16 / 100)) (dotResolution scale perspectiveOn) r g b (fadd a (num (2 / 10))) \<and>
   fst (getDataLegalMoveCornerTris (counting gsquareCenter) (cx, cy) (r, g, b, a) (n, bd))
     = getDataCornerTriangles
         (fsub (fadd cx (fsub (num 1) (fst (gsquareCenter bd)))) (num (5 / 10)))
         (fsub (fadd cy (fsub (num 1) (fst (gsquareCenter (snd (gsquareCenter bd))))))
            (num (5 / 10)))
         (num (50 / 100)) (r, g, b, fadd a (num (2 / 10))) \<and>
   fst (getDataLegalMoveDot board_gsquareCenter getDataCircle (cx, cy) (r, g, b, a) scale
          perspectiveOn brd)
     = getDataCircle
         (fsub (fadd cx (fsub (num 1) (squareCenter brd))) (num (5 / 10)))
         (fsub (fadd cy (fsub (num 1) (squareCenter brd))) (num (5 / 10)))
         (num (16 / 100)) (dotResolution scale perspectiveOn) r g b (fadd a (num (2 / 10))) \<and>
   fst (getDataLegalMoveCornerTris board_gsquareCenter (cx, cy) (r, g, b, a) brd)
     = getDataCornerTriangles
         (fsub (fadd cx (fsub (num 1) (squareCenter brd))) (num (5 / 10)))
         (fsub (fadd cy (fsub (num 1) (squareCenter brd))) (num (5 / 10)))
         (num (50 / 100)) (r, g, b, fadd a (num (2 / 10)))"
  by (simp add: getDataLegalMoveDot_call getDataLegalMoveCornerTris_call counting_def
        board_gsquareCenter_def split_def centreOf_def lit_half)

end
